theory Spec2Isabelle
  imports Main "HOL-Library.Word" "HOL-Library.Sublist"
begin

section \<open>Filter storage (filters/filter\_storage.go): data model\<close>

text \<open>
  Go strings and byte slices are modelled as \<open>string\<close> (a list of 8-bit characters),
  \<open>uint64\<close> as \<open>64 word\<close>, and \<open>time.Time\<close> as the number of nanoseconds since the
  Unix epoch.
\<close>

type_synonym time = int

definition Unix :: "time \<Rightarrow> int" where
  "Unix t = t div 1000000000"

definition Second :: int where
  "Second = 1000000000"

definition Hour :: int where
  "Hour = 3600 * Second"

text \<open>
  \<open>time.Duration(h) * time.Hour\<close> for the \<open>uint32\<close> number of hours of the
  configuration: a product of \<open>int64\<close> values, which wraps around from 2562048 hours on.
\<close>

definition Duration_hours :: "32 word \<Rightarrow> int" where
  "Duration_hours h = sint ((ucast h :: 64 word) * word_of_int Hour)"

text \<open>The zero value \<open>time.Time{}\<close> (January 1, year 1, 00:00 UTC).\<close>

definition zeroTime :: time where
  "zeroTime = - 62135596800 * Second"

text \<open>
  The \<open>Filter\<close> struct is declared in another file of the package; its fields are
  taken from their uses in filter\_storage.go.
\<close>

record Filter =
  ID :: "64 word"
  Enabled :: bool
  Name :: string
  URL :: string
  LastModified :: string
  Path :: string
  RuleCount :: "64 word"
  LastUpdated :: time
  nextUpdate :: time
  networkError :: bool

text \<open>The zero value \<open>Filter{}\<close>.\<close>

definition Filter0 :: Filter where
  "Filter0 = \<lparr>ID = 0, Enabled = False, Name = [], URL = [], LastModified = [], Path = [],
     RuleCount = 0, LastUpdated = zeroTime, nextUpdate = zeroTime, networkError = False\<rparr>"

text \<open>
  Modelled from the spec: the status bits returned by \<open>Modify\<close> and the event flags
  passed to the observers are constants declared outside filter\_storage.go. The
  bit array \<open>st\<close> is a set of status bits, \<open>st |= b\<close> inserts and \<open>st & b != 0\<close> tests
  membership.
\<close>

datatype status = StatusChangedEnabled | StatusChangedURL

datatype event = EventBeforeUpdate | EventAfterUpdate

text \<open>Every \<open>return err\<close> of the source is one of these values.\<close>

datatype error =
    ErrExists
  | ErrNotFound
  | ErrTempFile
  | ErrOpenFile
  | ErrNewRequest
  | ErrTransport
  | ErrHTTPStatus nat
  | ErrRead
  | ErrNonPrintable
  | ErrHTML
  | ErrWrite
  | ErrRename

section \<open>Text helpers\<close>

definition NL :: char where
  "NL = CHR 0x0A"

text \<open>
  \<open>isPrintableText\<close>: every byte is at least \<open>' '\<close> and not \<open>0x7f\<close>, or is LF, CR or TAB.
\<close>

definition printable :: "char \<Rightarrow> bool" where
  "printable c = ((of_char c \<ge> (32::nat) \<and> of_char c \<noteq> (127::nat))
      \<or> c = CHR 0x0A \<or> c = CHR 0x0D \<or> c = CHR 0x09)"

fun isPrintableText :: "string \<Rightarrow> bool" where
  "isPrintableText [] = True"
| "isPrintableText (c # cs) = (if printable c then isPrintableText cs else False)"

text \<open>
  \<open>gatherUntil dst[:dstLen] src until\<close>: the bytes of \<open>src\<close> that are copied behind the
  \<open>dstLen\<close> bytes already gathered. The first argument is the filled part of \<open>dst\<close>.
\<close>

definition gatherUntil :: "string \<Rightarrow> string \<Rightarrow> nat \<Rightarrow> string" where
  "gatherUntil dst src until = take (min (length src) (until - length dst)) src"

text \<open>
  \<open>strings.Contains\<close>, and \<open>strings.ToLower\<close> restricted to what \<open>isHTML\<close> observes:
  the two patterns are ASCII and contain neither \<open>k\<close> nor \<open>i\<close>, the only ASCII letters
  that are the lower case of a non-ASCII rune, so a match in the lowered string is a
  match of the bytes lowered one by one.
\<close>

fun Contains :: "string \<Rightarrow> string \<Rightarrow> bool" where
  "Contains [] sub = (sub = [])"
| "Contains (c # cs) sub = (prefix sub (c # cs) \<or> Contains cs sub)"

definition lowerByte :: "char \<Rightarrow> char" where
  "lowerByte c = (if (65::nat) \<le> of_char c \<and> of_char c \<le> (90::nat)
                  then char_of (of_char c + (32::nat)) else c)"

definition ToLower :: "string \<Rightarrow> string" where
  "ToLower s = map lowerByte s"

definition isHTML :: "string \<Rightarrow> bool" where
  "isHTML buf = (let s = ToLower buf in Contains s ''<html'' \<or> Contains s ''<!doctype'')"

text \<open>
  \<open>strings.TrimSpace\<close> removes leading and trailing runes for which \<open>unicode.IsSpace\<close>
  holds: the six ASCII ones and U+0085, U+00A0, U+1680, U+2000..U+200A, U+2028,
  U+2029, U+202F, U+205F, U+3000 in their UTF-8 encodings. A rune is decoded as one of
  these exactly when the bytes at that end of the string are its encoding.
\<close>

definition asciiSpace :: "char \<Rightarrow> bool" where
  "asciiSpace c = (c = CHR 0x09 \<or> c = CHR 0x0A \<or> c = CHR 0x0B \<or> c = CHR 0x0C
      \<or> c = CHR 0x0D \<or> c = CHR 0x20)"

definition space2 :: "char \<Rightarrow> char \<Rightarrow> bool" where
  "space2 a b = (a = CHR 0xC2 \<and> (b = CHR 0x85 \<or> b = CHR 0xA0))"

definition space3 :: "char \<Rightarrow> char \<Rightarrow> char \<Rightarrow> bool" where
  "space3 a b c =
     ((a = CHR 0xE1 \<and> b = CHR 0x9A \<and> c = CHR 0x80)
    \<or> (a = CHR 0xE2 \<and> b = CHR 0x80 \<and>
         (((128::nat) \<le> of_char c \<and> of_char c \<le> (138::nat))
          \<or> c = CHR 0xA8 \<or> c = CHR 0xA9 \<or> c = CHR 0xAF))
    \<or> (a = CHR 0xE2 \<and> b = CHR 0x81 \<and> c = CHR 0x9F)
    \<or> (a = CHR 0xE3 \<and> b = CHR 0x80 \<and> c = CHR 0x80))"

fun trimLeft :: "string \<Rightarrow> string" where
  "trimLeft [] = []"
| "trimLeft [a] = (if asciiSpace a then [] else [a])"
| "trimLeft [a, b] =
     (if asciiSpace a then trimLeft [b] else if space2 a b then [] else [a, b])"
| "trimLeft (a # b # c # s) =
     (if asciiSpace a then trimLeft (b # c # s)
      else if space2 a b then trimLeft (c # s)
      else if space3 a b c then trimLeft s
      else a # b # c # s)"

text \<open>\<open>trimRev\<close> trims the end of a string, given reversed.\<close>

fun trimRev :: "string \<Rightarrow> string" where
  "trimRev [] = []"
| "trimRev [a] = (if asciiSpace a then [] else [a])"
| "trimRev [a, b] =
     (if asciiSpace a then trimRev [b] else if space2 b a then [] else [a, b])"
| "trimRev (a # b # c # s) =
     (if asciiSpace a then trimRev (b # c # s)
      else if space2 b a then trimRev (c # s)
      else if space3 c b a then trimRev s
      else a # b # c # s)"

definition TrimSpace :: "string \<Rightarrow> string" where
  "TrimSpace s = rev (trimRev (rev (trimLeft s)))"

text \<open>\<open>strings.IndexByte\<close>: the position of the first occurrence, or \<open>-1\<close>.\<close>

fun IndexByte :: "string \<Rightarrow> char \<Rightarrow> int" where
  "IndexByte [] b = - 1"
| "IndexByte (c # cs) b =
     (if c = b then 0 else (let i = IndexByte cs b in if i < 0 then - 1 else i + 1))"

text \<open>
  \<open>splitNext(&s, by)\<close> returns the position, the trimmed first piece, and the new
  value of \<open>s\<close>.
\<close>

definition splitNext :: "string \<Rightarrow> char \<Rightarrow> int \<times> string \<times> string" where
  "splitNext s by =
     (let i = IndexByte s by in
      if i < 0 then (i, TrimSpace s, [])
      else (i, TrimSpace (take (nat i) s), drop (nat i + 1) s))"

text \<open>A line that is counted: not empty and not a comment.\<close>

definition isRule :: "string \<Rightarrow> bool" where
  "isRule line = (\<not> (length line = 0 \<or> hd line = CHR ''#'' \<or> hd line = CHR ''!''))"

section \<open>Readers\<close>

text \<open>
  An \<open>io.Reader\<close> is the list of the results of its successive \<open>Read\<close> calls: data with a
  nil error, data together with \<open>io.EOF\<close>, or another error. A reader whose list is
  used up returns \<open>(0, io.EOF)\<close>.
\<close>

datatype read_result = Data string | DataEOF string | ReadErr

type_synonym reader = "read_result list"

text \<open>The bytes a reader delivers up to its end or its first error.\<close>

fun stream_of :: "reader \<Rightarrow> string" where
  "stream_of [] = []"
| "stream_of (Data d # rd) = d @ stream_of rd"
| "stream_of (DataEOF d # rd) = d"
| "stream_of (ReadErr # rd) = []"

text \<open>
  An open file is read in pieces of the size of the caller's buffer; \<open>err\<close> tells which
  \<open>Read\<close> fails, if one does.
\<close>

function chunks_of :: "nat \<Rightarrow> string \<Rightarrow> string list" where
  "chunks_of n s = (if n = 0 \<or> s = [] then [] else take n s # chunks_of n (drop n s))"
  by pat_completeness auto
termination
  by (relation "measure (\<lambda>(n, s). length s)") auto

declare chunks_of.simps [simp del]

definition file_reads :: "nat \<Rightarrow> nat option \<Rightarrow> string \<Rightarrow> reader" where
  "file_reads n err s =
     (case err of
        None \<Rightarrow> map Data (chunks_of n s)
      | Some k \<Rightarrow> map Data (take k (chunks_of n s)) @ [ReadErr])"

section \<open>parseFilter and writeFile\<close>

text \<open>
  \<open>parseFilter\<close> reads lines with \<open>bufio.Reader.ReadString('\n')\<close>, which gathers a line
  over as many reads of the file as it takes. \<open>parse_chunk\<close> goes through the bytes of
  one read: \<open>line\<close> is the part of the current line read so far, and a line is counted
  at its delimiter if it is a rule after trimming. At \<open>io.EOF\<close> the rest is the last
  line; at another error \<open>parseFilter\<close> returns it and leaves \<open>RuleCount\<close> as it was.
\<close>

fun parse_chunk :: "string \<Rightarrow> string \<Rightarrow> nat \<Rightarrow> string \<times> nat" where
  "parse_chunk [] line ruleCount = (line, ruleCount)"
| "parse_chunk (c # cs) line ruleCount =
     (if c = NL
      then parse_chunk cs []
             (if isRule (TrimSpace (line @ [c])) then ruleCount + 1 else ruleCount)
      else parse_chunk cs (line @ [c]) ruleCount)"

definition parse_last :: "string \<Rightarrow> nat \<Rightarrow> nat" where
  "parse_last line ruleCount = (if isRule (TrimSpace line) then ruleCount + 1 else ruleCount)"

fun parse_loop :: "reader \<Rightarrow> string \<Rightarrow> nat \<Rightarrow> error + nat" where
  "parse_loop [] line ruleCount = Inr (parse_last line ruleCount)"
| "parse_loop (ReadErr # rd) line ruleCount = Inl ErrRead"
| "parse_loop (DataEOF d # rd) line ruleCount =
     (case parse_chunk d line ruleCount of (line', ruleCount') \<Rightarrow>
        Inr (parse_last line' ruleCount'))"
| "parse_loop (Data d # rd) line ruleCount =
     (case parse_chunk d line ruleCount of (line', ruleCount') \<Rightarrow>
        parse_loop rd line' ruleCount')"

definition parseFilter :: "Filter \<Rightarrow> reader \<Rightarrow> error option \<times> Filter" where
  "parseFilter f rd =
     (case parse_loop rd [] 0 of
        Inl err \<Rightarrow> (Some err, f)
      | Inr ruleCount \<Rightarrow> (None, f\<lparr>RuleCount := of_nat ruleCount\<rparr>))"

text \<open>
  The inner loop of \<open>writeFile\<close> over the string \<open>s\<close>: \<open>eof\<close> is \<open>err == io.EOF\<close>; the
  result is the new \<open>chunk\<close> and \<open>ruleCount\<close>.
\<close>

function lines_loop :: "bool \<Rightarrow> string \<Rightarrow> string \<Rightarrow> nat \<Rightarrow> string \<times> nat" where
  "lines_loop eof s chunk ruleCount =
     (if length s = 0 then (chunk, ruleCount)
      else
        (case splitNext s NL of (i, line, s') \<Rightarrow>
           if i < 0 \<and> \<not> eof then (chunk, ruleCount)
           else if \<not> isRule line then lines_loop eof s' s' ruleCount
           else lines_loop eof s' s' (ruleCount + 1)))"
  by pat_completeness auto
termination
  by (relation "measure (\<lambda>(eof, s, chunk, ruleCount). length s)")
     (auto simp: splitNext_def Let_def split: if_splits)

declare lines_loop.simps [simp del]

text \<open>
  One iteration of the outer loop of \<open>writeFile\<close> after a \<open>Read\<close> that returned \<open>buf[:n]\<close>
  without a fatal error. \<open>Write_err k\<close> tells whether the \<open>k\<close>-th \<open>Write\<close> to the output
  file fails, and after how many bytes. The result is the error, if any, and the new
  \<open>firstChunk\<close> (\<open>None\<close> for nil), \<open>chunk\<close>, \<open>ruleCount\<close> and content of the output file.
\<close>

definition writeFile_body ::
  "(nat \<Rightarrow> nat option) \<Rightarrow> nat \<Rightarrow> string \<Rightarrow> bool \<Rightarrow> string option \<Rightarrow> string \<Rightarrow> nat \<Rightarrow> string
     \<Rightarrow> error option \<times> string option \<times> string \<times> nat \<times> string" where
  "writeFile_body Write_err k buf eof firstChunk chunk ruleCount out =
     (if \<not> isPrintableText buf then (Some ErrNonPrintable, firstChunk, chunk, ruleCount, out)
      else
        let gathered = (case firstChunk of None \<Rightarrow> None
                        | Some fc \<Rightarrow> Some (fc @ gatherUntil fc buf 4096));
            html = (case gathered of None \<Rightarrow> False
                    | Some fc \<Rightarrow> (length fc = 4096 \<or> eof) \<and> isHTML fc);
            firstChunk' = (case gathered of None \<Rightarrow> None
                           | Some fc \<Rightarrow> if length fc = 4096 \<or> eof then None else Some fc)
        in
        if html then (Some ErrHTML, gathered, chunk, ruleCount, out)
        else
          (case Write_err k of
             Some m \<Rightarrow> (Some ErrWrite, firstChunk', chunk, ruleCount, out @ take m buf)
           | None \<Rightarrow>
               (case lines_loop eof (chunk @ buf) (chunk @ buf) ruleCount of
                  (chunk', ruleCount') \<Rightarrow>
                    (None, firstChunk', chunk', ruleCount', out @ buf))))"

fun writeFile_loop ::
  "(nat \<Rightarrow> nat option) \<Rightarrow> nat \<Rightarrow> reader \<Rightarrow> string option \<Rightarrow> string \<Rightarrow> nat \<Rightarrow> string
     \<Rightarrow> error option \<times> nat \<times> string" where
  "writeFile_loop Write_err k [] firstChunk chunk ruleCount out =
     (case writeFile_body Write_err k [] True firstChunk chunk ruleCount out of
        (err, fc', chunk', ruleCount', out') \<Rightarrow> (err, ruleCount', out'))"
| "writeFile_loop Write_err k (ReadErr # rd) firstChunk chunk ruleCount out =
     (Some ErrRead, ruleCount, out)"
| "writeFile_loop Write_err k (DataEOF buf # rd) firstChunk chunk ruleCount out =
     (case writeFile_body Write_err k buf True firstChunk chunk ruleCount out of
        (err, fc', chunk', ruleCount', out') \<Rightarrow> (err, ruleCount', out'))"
| "writeFile_loop Write_err k (Data buf # rd) firstChunk chunk ruleCount out =
     (case writeFile_body Write_err k buf False firstChunk chunk ruleCount out of
        (Some e, fc', chunk', ruleCount', out') \<Rightarrow> (Some e, ruleCount', out')
      | (None, fc', chunk', ruleCount', out') \<Rightarrow>
          writeFile_loop Write_err (k + 1) rd fc' chunk' ruleCount' out')"

text \<open>
  \<open>writeFile f reader outFile\<close>: the error, the descriptor (with \<open>RuleCount\<close> set on
  success) and the content of the output file, which was empty at the call.
\<close>

definition writeFile ::
  "(nat \<Rightarrow> nat option) \<Rightarrow> Filter \<Rightarrow> reader \<Rightarrow> error option \<times> Filter \<times> string" where
  "writeFile Write_err f rd =
     (case writeFile_loop Write_err 0 rd (Some []) [] 0 [] of
        (Some e, ruleCount, out) \<Rightarrow> (Some e, f, out)
      | (None, ruleCount, out) \<Rightarrow> (None, f\<lparr>RuleCount := of_nat ruleCount\<rparr>, out))"

section \<open>Rule counting as the specification words it\<close>

text \<open>
  The specification: split the content on line breaks, trim surrounding whitespace,
  skip the lines that are empty or start with \<open>#\<close> or \<open>!\<close>, count all the others.
\<close>

fun split_lines :: "string \<Rightarrow> string list" where
  "split_lines [] = [[]]"
| "split_lines (c # cs) =
     (if c = NL then [] # split_lines cs
      else (case split_lines cs of [] \<Rightarrow> [[c]] | l # ls \<Rightarrow> (c # l) # ls))"

definition spec_counted :: "string \<Rightarrow> bool" where
  "spec_counted line =
     (let t = TrimSpace line in t \<noteq> [] \<and> hd t \<noteq> CHR ''#'' \<and> hd t \<noteq> CHR ''!'')"

definition spec_ruleCount :: "string \<Rightarrow> nat" where
  "spec_ruleCount s = length (filter spec_counted (split_lines s))"

text \<open>The content of the specification's example.\<close>

definition example_content :: string where
  "example_content =
     ''# c'' @ [NL] @ ''||ads.example^'' @ [NL] @ [NL] @ ''! c2'' @ [NL] @ ''||track.net^'' @ [NL]"

section \<open>The file system, the network and the clock\<close>

text \<open>
  The world outside the process: the files by path (content and modification time),
  the number of file handles the process holds, and the trace of the observable
  actions (lock operations, observer calls, HTTP requests).
\<close>

record disk_file =
  content :: string
  mtime :: time

record request =
  req_url :: string
  If_Modified_Since :: "string option"

datatype http_result = TransportError | Response nat string reader

datatype action = Lock | Unlock | Notify nat event | HTTPGet request

record world =
  files :: "string \<Rightarrow> disk_file option"
  open_fds :: nat
  trace :: "action list"

text \<open>
  What the environment answers during one call: the clock, the name chosen by
  \<open>ioutil.TempFile\<close> (\<open>None\<close> when it fails), whether \<open>http.NewRequest\<close> accepts the URL,
  the result of \<open>HTTPClient.Do\<close>, which \<open>Write\<close> fails (and after how many bytes), and
  whether \<open>os.Rename\<close> and \<open>os.Chtimes\<close> succeed on an existing file, and which
  \<open>Read\<close> of an opened file fails, by path. \<open>pick_now\<close> and \<open>retry_now\<close> are the clock
  readings of \<open>getNextToUpdate\<close> and of the network-error branch of \<open>updateAll\<close>.
\<close>

record env =
  now :: time
  TempFile :: "string option"
  NewRequest_ok :: "string \<Rightarrow> bool"
  Do :: "request \<Rightarrow> http_result"
  Write_err :: "nat \<Rightarrow> nat option"
  Rename_ok :: "string \<Rightarrow> string \<Rightarrow> bool"
  Chtimes_ok :: "string \<Rightarrow> bool"
  Read_err :: "string \<Rightarrow> nat option"
  pick_now :: time
  retry_now :: time

definition lock :: "world \<Rightarrow> world" where
  "lock w = w\<lparr>trace := trace w @ [Lock]\<rparr>"

definition unlock :: "world \<Rightarrow> world" where
  "unlock w = w\<lparr>trace := trace w @ [Unlock]\<rparr>"

definition close_fd :: "world \<Rightarrow> world" where
  "close_fd w = w\<lparr>open_fds := open_fds w - 1\<rparr>"

definition write_file :: "string \<Rightarrow> string \<Rightarrow> time \<Rightarrow> world \<Rightarrow> world" where
  "write_file p c t w = w\<lparr>files := (files w)(p \<mapsto> \<lparr>content = c, mtime = t\<rparr>)\<rparr>"

text \<open>\<open>os.Remove\<close> (its error is ignored at both call sites).\<close>

definition os_Remove :: "string \<Rightarrow> world \<Rightarrow> world" where
  "os_Remove p w = w\<lparr>files := (files w)(p := None)\<rparr>"

text \<open>\<open>os.Rename\<close>: fails when the old path does not exist or the environment says so.\<close>

definition os_Rename :: "bool \<Rightarrow> string \<Rightarrow> string \<Rightarrow> world \<Rightarrow> bool \<times> world" where
  "os_Rename ok old new w =
     (case files w old of
        None \<Rightarrow> (False, w)
      | Some fl \<Rightarrow>
          if \<not> ok then (False, w)
          else if old = new then (True, w)
          else (True, w\<lparr>files := (files w)(new \<mapsto> fl, old := None)\<rparr>))"

definition os_Chtimes :: "bool \<Rightarrow> string \<Rightarrow> time \<Rightarrow> world \<Rightarrow> bool \<times> world" where
  "os_Chtimes ok p t w =
     (case files w p of
        None \<Rightarrow> (False, w)
      | Some fl \<Rightarrow>
          if \<not> ok then (False, w)
          else (True, w\<lparr>files := (files w)(p \<mapsto> fl\<lparr>mtime := t\<rparr>)\<rparr>))"

text \<open>\<open>filepath.IsAbs\<close> on Unix.\<close>

definition IsAbs :: "string \<Rightarrow> bool" where
  "IsAbs p = (case p of [] \<Rightarrow> False | c # cs \<Rightarrow> c = CHR ''/'')"

text \<open>
  \<open>filepath.Clean\<close> and \<open>filepath.Join\<close> of two elements on Unix. The elements between
  the separators are gone through from the left: empty ones and \<open>.\<close> are dropped,
  \<open>..\<close> removes the element before it, is dropped at the root, and is kept at the
  start of a path that is not rooted.
\<close>

fun split_on :: "char \<Rightarrow> string \<Rightarrow> string list" where
  "split_on sep [] = [[]]"
| "split_on sep (c # cs) =
     (if c = sep then [] # split_on sep cs
      else (case split_on sep cs of [] \<Rightarrow> [[c]] | l # ls \<Rightarrow> (c # l) # ls))"

fun clean_elems :: "bool \<Rightarrow> string list \<Rightarrow> string list \<Rightarrow> string list" where
  "clean_elems rooted [] out = rev out"
| "clean_elems rooted (c # cs) out =
     (if c = [] \<or> c = ''.'' then clean_elems rooted cs out
      else if c = ''..'' then
        (case out of
           el # rest \<Rightarrow>
             if el \<noteq> ''..'' then clean_elems rooted cs rest
             else clean_elems rooted cs (c # out)
         | [] \<Rightarrow> if rooted then clean_elems rooted cs out else clean_elems rooted cs [c])
      else clean_elems rooted cs (c # out))"

fun join_elems :: "string list \<Rightarrow> string" where
  "join_elems [] = []"
| "join_elems [c] = c"
| "join_elems (c # d # cs) = c @ ''/'' @ join_elems (d # cs)"

definition filepath_Clean :: "string \<Rightarrow> string" where
  "filepath_Clean p =
     (if p = [] then ''.''
      else
        (let rooted = (hd p = CHR ''/'');
             body = join_elems (clean_elems rooted (split_on (CHR ''/'') p) [])
         in if rooted then CHR ''/'' # body else if body = [] then ''.'' else body))"

definition filepath_Join :: "string \<Rightarrow> string \<Rightarrow> string" where
  "filepath_Join a b =
     (if a \<noteq> [] then filepath_Clean (a @ ''/'' @ b)
      else if b \<noteq> [] then filepath_Clean b
      else [])"

text \<open>\<open>fmt.Sprintf("%d", n)\<close>.\<close>

function decimal :: "nat \<Rightarrow> string" where
  "decimal n =
     (if n < 10 then [char_of (48 + n)]
      else decimal (n div 10) @ [char_of (48 + n mod 10)])"
  by pat_completeness auto
termination
  by (relation "measure (\<lambda>n. n)") auto

declare decimal.simps [simp del]

section \<open>The filter storage object\<close>

text \<open>
  The fields of \<open>filterStg\<close> and of its \<open>Conf\<close> that filter\_storage.go uses; the
  observers in \<open>Users\<close> are named by numbers. Modelled from the spec: \<open>Conf\<close> is
  declared in another file; its interval is taken as a \<open>uint32\<close> number of hours.
\<close>

record filterStg =
  updated :: "Filter list"
  FilterDir :: string
  conf_List :: "Filter list"
  UpdateIntervalHours :: "32 word"
  nextID :: "64 word"
  Users :: "nat list"

definition filePath :: "string \<Rightarrow> Filter \<Rightarrow> string" where
  "filePath dir f = filepath_Join dir (decimal (unat (ID f)) @ ''.txt'')"

definition nextFilterID :: "filterStg \<Rightarrow> 64 word \<times> filterStg" where
  "nextFilterID s = (nextID s + 1, s\<lparr>nextID := nextID s + 1\<rparr>)"

definition notifyUsers :: "event \<Rightarrow> filterStg \<Rightarrow> world \<Rightarrow> world" where
  "notifyUsers flags s w = w\<lparr>trace := trace w @ map (\<lambda>u. Notify u flags) (Users s)\<rparr>"

section \<open>downloadFilter\<close>

text \<open>
  The deferred function of \<open>downloadFilter\<close> while \<open>tmpFile != nil\<close>: close the handle
  (\<open>opened\<close> tells whether it is still open) and remove the file.
\<close>

definition cleanup :: "bool \<Rightarrow> string \<Rightarrow> world \<Rightarrow> world" where
  "cleanup opened tmp w = os_Remove tmp (if opened then close_fd w else w)"

text \<open>
  The end of \<open>downloadFilter\<close>, from the call of \<open>writeFile\<close> on: the bytes written reach
  the temporary file also when \<open>writeFile\<close> fails.
\<close>

definition downloadFilter_write ::
  "string \<Rightarrow> env \<Rightarrow> Filter \<Rightarrow> string \<Rightarrow> reader \<Rightarrow> world \<Rightarrow> error option \<times> Filter \<times> world" where
  "downloadFilter_write dir e f tmp rd w =
     (case writeFile (Write_err e) f rd of
        (Some er, f1, out) \<Rightarrow> (Some er, f1, cleanup True tmp (write_file tmp out (now e) w))
      | (None, f1, out) \<Rightarrow>
          (let w1 = close_fd (write_file tmp out (now e) w);
               fname = filePath dir f1
           in case os_Rename (Rename_ok e tmp fname) tmp fname w1 of
                (False, w2) \<Rightarrow> (Some ErrRename, f1, cleanup False tmp w2)
              | (True, w2) \<Rightarrow> (None, f1\<lparr>Path := fname, LastUpdated := now e\<rparr>, w2)))"

text \<open>The GET request, with \<open>If-Modified-Since\<close> when \<open>LastModified\<close> is not empty.\<close>

definition request_for :: "Filter \<Rightarrow> request" where
  "request_for f =
     \<lparr>req_url = URL f,
      If_Modified_Since =
        (if length (LastModified f) \<noteq> 0 then Some (LastModified f) else None)\<rparr>"

definition downloadFilter ::
  "string \<Rightarrow> env \<Rightarrow> Filter \<Rightarrow> world \<Rightarrow> error option \<times> Filter \<times> world" where
  "downloadFilter dir e f w =
     (case TempFile e of
        None \<Rightarrow> (Some ErrTempFile, f, w)
      | Some tmp \<Rightarrow>
          if files w tmp \<noteq> None then (Some ErrTempFile, f, w)
          else
            (let w0 = (write_file tmp [] (now e) w)\<lparr>open_fds := open_fds w + 1\<rparr> in
             if IsAbs (URL f) then
               (case files w0 (URL f) of
                  None \<Rightarrow> (Some ErrOpenFile, f, cleanup True tmp w0)
                | Some src \<Rightarrow>
                    (case downloadFilter_write dir e f tmp
                            (file_reads 65536 (Read_err e (URL f)) (content src))
                            (w0\<lparr>open_fds := open_fds w0 + 1\<rparr>) of
                       (err, f1, w1) \<Rightarrow> (err, f1, close_fd w1)))
             else if \<not> NewRequest_ok e (URL f) then (Some ErrNewRequest, f, cleanup True tmp w0)
             else
               (let req = request_for f;
                    w1 = w0\<lparr>trace := trace w0 @ [HTTPGet req]\<rparr>
                in case Do e req of
                     TransportError \<Rightarrow>
                       (Some ErrTransport, f\<lparr>networkError := True\<rparr>, cleanup True tmp w1)
                   | Response code lm body \<Rightarrow>
                       if code = 304
                       then (None, f\<lparr>LastUpdated := now e, Path := []\<rparr>, cleanup True tmp w1)
                       else if code \<noteq> 200
                       then (Some (ErrHTTPStatus code), f, cleanup True tmp w1)
                       else downloadFilter_write dir e (f\<lparr>LastModified := lm\<rparr>) tmp body w1)))"

section \<open>Add, Delete, Modify\<close>

definition Add :: "env \<Rightarrow> Filter \<Rightarrow> filterStg \<Rightarrow> world \<Rightarrow> error option \<times> filterStg \<times> world" where
  "Add e nf s w =
     (let w0 = lock w in
      if list_ex (\<lambda>f. Name f = Name nf \<or> URL f = URL nf) (conf_List s)
      then (Some ErrExists, s, unlock w0)
      else
        (case nextFilterID s of
           (newID, s1) \<Rightarrow>
             (case downloadFilter (FilterDir s1) e (nf\<lparr>ID := newID, Enabled := True\<rparr>) w0 of
                (Some er, nf1, w1) \<Rightarrow> (Some er, s1, unlock w1)
              | (None, nf1, w1) \<Rightarrow>
                  (None, s1\<lparr>conf_List := conf_List s1 @ [nf1]\<rparr>, unlock w1))))"

fun Delete_loop ::
  "string \<Rightarrow> Filter list \<Rightarrow> Filter list \<Rightarrow> Filter option \<Rightarrow> Filter list \<times> Filter option" where
  "Delete_loop url [] nf found = (nf, found)"
| "Delete_loop url (f # fs) nf found =
     (if URL f = url then Delete_loop url fs nf (Some f)
      else Delete_loop url fs (nf @ [f]) found)"

definition Delete :: "string \<Rightarrow> filterStg \<Rightarrow> world \<Rightarrow> Filter option \<times> filterStg \<times> world" where
  "Delete url s w =
     (let w0 = lock w in
      case Delete_loop url (conf_List s) [] None of
        (nf, None) \<Rightarrow> (None, s, unlock w0)
      | (nf, Some found) \<Rightarrow>
          (Some (found\<lparr>Path := filePath (FilterDir s) found\<rparr>), s\<lparr>conf_List := nf\<rparr>,
           unlock w0))"

text \<open>The position of the first descriptor with the given URL.\<close>

fun find_URL :: "string \<Rightarrow> Filter list \<Rightarrow> nat option" where
  "find_URL url [] = None"
| "find_URL url (f # fs) = (if URL f = url then Some 0 else map_option Suc (find_URL url fs))"

text \<open>\<open>Modify\<close>, lines 195 to 206: the new name, enabled flag and URL, and the status bits.\<close>

definition Modify_fields :: "Filter \<Rightarrow> bool \<Rightarrow> string \<Rightarrow> string \<Rightarrow> Filter \<times> status set" where
  "Modify_fields f enabled name newURL =
     (let f1 = f\<lparr>Name := name\<rparr>;
          st1 = (if Enabled f1 \<noteq> enabled then {StatusChangedEnabled} else {});
          f2 = (if Enabled f1 \<noteq> enabled then f1\<lparr>Enabled := enabled\<rparr> else f1);
          st2 = (if URL f2 \<noteq> newURL then insert StatusChangedURL st1 else st1);
          f3 = (if URL f2 \<noteq> newURL then f2\<lparr>URL := newURL\<rparr> else f2)
      in (f3, st2))"

text \<open>
  Lines 208 to 224: a new ID when the URL changed; a parse of the cache file when the
  filter was switched on, or \<open>needDownload\<close> when that file cannot be opened. The file
  is opened and closed again, it is read through a \<open>bufio.Reader\<close> (buffer of 4096
  bytes), and the error of \<open>parseFilter\<close> is dropped.
\<close>

definition Modify_plan ::
  "env \<Rightarrow> status set \<Rightarrow> bool \<Rightarrow> Filter \<Rightarrow> filterStg \<Rightarrow> world
     \<Rightarrow> Filter \<times> bool \<times> filterStg" where
  "Modify_plan e st enabled f s w =
     (if StatusChangedURL \<in> st then
        (case nextFilterID s of (newID, s1) \<Rightarrow> (f\<lparr>ID := newID\<rparr>, True, s1))
      else if StatusChangedEnabled \<in> st \<and> enabled then
        (case files w (filePath (FilterDir s) f) of
           None \<Rightarrow> (f, True, s)
         | Some fl \<Rightarrow>
             (snd (parseFilter f
                     (file_reads 4096 (Read_err e (filePath (FilterDir s) f)) (content fl))),
              False, s))
      else (f, False, s))"

text \<open>
  The body of the loop of \<open>Modify\<close> for the descriptor at position \<open>i\<close>, which is
  changed in place and, when the download fails, overwritten with the backup.
\<close>

definition Modify_at ::
  "env \<Rightarrow> nat \<Rightarrow> bool \<Rightarrow> string \<Rightarrow> string \<Rightarrow> filterStg \<Rightarrow> world
     \<Rightarrow> (status set \<times> Filter \<times> error option) \<times> filterStg \<times> world" where
  "Modify_at e i enabled name newURL s w =
     (let backup = conf_List s ! i in
      case Modify_fields backup enabled name newURL of
        (f, st) \<Rightarrow>
          (case Modify_plan e st enabled f s w of
             (f1, needDownload, s1) \<Rightarrow>
               if needDownload then
                 (case downloadFilter (FilterDir s1) e (f1\<lparr>LastModified := [], RuleCount := 0\<rparr>) w of
                    (Some er, f2, w1) \<Rightarrow>
                      (({}, Filter0, Some er),
                       s1\<lparr>conf_List := ((conf_List s1)[i := f2])[i := backup]\<rparr>, w1)
                  | (None, f2, w1) \<Rightarrow>
                      ((st, backup, None), s1\<lparr>conf_List := (conf_List s1)[i := f2]\<rparr>, w1))
               else ((st, backup, None), s1\<lparr>conf_List := (conf_List s1)[i := f1]\<rparr>, w)))"

definition Modify ::
  "env \<Rightarrow> string \<Rightarrow> bool \<Rightarrow> string \<Rightarrow> string \<Rightarrow> filterStg \<Rightarrow> world
     \<Rightarrow> (status set \<times> Filter \<times> error option) \<times> filterStg \<times> world" where
  "Modify e url enabled name newURL s w =
     (let w0 = lock w in
      case find_URL url (conf_List s) of
        None \<Rightarrow> (({}, Filter0, Some ErrNotFound), s, unlock w0)
      | Some i \<Rightarrow>
          (case Modify_at e i enabled name newURL s w0 of
             (r, s1, w1) \<Rightarrow> (r, s1, unlock w1)))"

section \<open>The update pass\<close>

text \<open>
  \<open>getNextToUpdate\<close>: the position of the first enabled descriptor that is due, which
  is rescheduled to \<open>now\<close> plus the interval.
\<close>

fun getNextToUpdate :: "time \<Rightarrow> 32 word \<Rightarrow> Filter list \<Rightarrow> nat option \<times> Filter list" where
  "getNextToUpdate t h [] = (None, [])"
| "getNextToUpdate t h (f # fs) =
     (if Enabled f \<and> Unix (nextUpdate f) \<le> Unix t
      then (Some 0, f\<lparr>nextUpdate := t + Duration_hours h\<rparr> # fs)
      else (case getNextToUpdate t h fs of (r, fs') \<Rightarrow> (map_option Suc r, f # fs')))"

text \<open>
  The inner loop of \<open>applyUpdate\<close> for one entry \<open>uf\<close> of the batch: it goes on after a
  descriptor whose entry has no staged file (\<open>continue\<close>) and stops after a rename
  (\<open>break\<close>). The result is \<open>found\<close>, the registry and the world.
\<close>

fun applyUpdate_scan ::
  "env \<Rightarrow> string \<Rightarrow> Filter \<Rightarrow> Filter list \<Rightarrow> world \<Rightarrow> bool \<times> Filter list \<times> world" where
  "applyUpdate_scan e dir uf [] w = (False, [], w)"
| "applyUpdate_scan e dir uf (f # fs) w =
     (if URL uf = URL f then
        (let fpath = filePath dir f;
             f1 = f\<lparr>LastUpdated := LastUpdated uf\<rparr>
         in if length (Path uf) = 0 then
              (case applyUpdate_scan e dir uf fs
                      (snd (os_Chtimes (Chtimes_ok e fpath) fpath (LastUpdated f1) w)) of
                 (found, fs', w') \<Rightarrow> (True, f1 # fs', w'))
            else
              (True, f1\<lparr>RuleCount := RuleCount uf\<rparr> # fs,
               snd (os_Rename (Rename_ok e (Path uf) fpath) (Path uf) fpath w)))
      else
        (case applyUpdate_scan e dir uf fs w of
           (found, fs', w') \<Rightarrow> (found, f # fs', w')))"

fun applyUpdate_loop ::
  "env \<Rightarrow> string \<Rightarrow> Filter list \<Rightarrow> Filter list \<Rightarrow> world \<Rightarrow> Filter list \<times> world" where
  "applyUpdate_loop e dir [] l w = (l, w)"
| "applyUpdate_loop e dir (uf # ufs) l w =
     (case applyUpdate_scan e dir uf l w of
        (found, l', w') \<Rightarrow>
          applyUpdate_loop e dir ufs l'
            (if \<not> found then os_Remove (filePath dir uf) w' else w'))"

definition applyUpdate :: "env \<Rightarrow> filterStg \<Rightarrow> world \<Rightarrow> filterStg \<times> world" where
  "applyUpdate e s w =
     (if length (updated s) = 0 then (s, w)
      else
        (let w1 = lock (notifyUsers EventBeforeUpdate s w) in
         case applyUpdate_loop e (FilterDir s) (updated s) (conf_List s) w1 of
           (l, w2) \<Rightarrow>
             (let s1 = s\<lparr>conf_List := l, updated := []\<rparr>
              in (s1, notifyUsers EventAfterUpdate s1 (unlock w2)))))"

text \<open>
  \<open>updateAll\<close>: each iteration of its loop takes the answers of the environment from
  the head of the list. The first component of the result tells whether the pass has
  returned; it is \<open>False\<close>, with the state reached so far, when the list is used up
  before \<open>getNextToUpdate\<close> finds nothing.
\<close>

fun updateAll :: "env list \<Rightarrow> filterStg \<Rightarrow> world \<Rightarrow> bool \<times> filterStg \<times> world" where
  "updateAll [] s w = (False, s, w)"
| "updateAll (e # es) s w =
     (case getNextToUpdate (pick_now e) (UpdateIntervalHours s) (conf_List s) of
        (None, l) \<Rightarrow> (True, applyUpdate e s (unlock (lock w)))
      | (Some i, l) \<Rightarrow>
          (case nextFilterID (s\<lparr>conf_List := l\<rparr>) of
             (newID, s1) \<Rightarrow>
               (case downloadFilter (FilterDir s1) e ((l ! i)\<lparr>ID := newID\<rparr>) (unlock (lock w)) of
                  (Some er, uf, w1) \<Rightarrow>
                    if networkError uf
                    then updateAll es
                           (s1\<lparr>conf_List :=
                                 l[i := (l ! i)\<lparr>nextUpdate := retry_now e + 10 * Second\<rparr>]\<rparr>)
                           (unlock (lock w1))
                    else updateAll es s1 w1
                | (None, uf, w1) \<Rightarrow> updateAll es (s1\<lparr>updated := updated s1 @ [uf]\<rparr>) w1)))"

section \<open>Auxiliary notions and example inputs\<close>

text \<open>
  The set of accepted bytes as the specification words it: \<open>0x20\<close> to \<open>0x7E\<close>, LF, CR
  and TAB.
\<close>

definition spec_printable :: "char \<Rightarrow> bool" where
  "spec_printable c = (((32::nat) \<le> of_char c \<and> of_char c \<le> (126::nat))
      \<or> c = CHR 0x0A \<or> c = CHR 0x0D \<or> c = CHR 0x09)"

text \<open>
  The chunks that \<open>writeFile\<close> reads and accepts before it meets something else: reads
  without an end of stream whose bytes pass \<open>isPrintableText\<close>. The read after them is
  refused when it delivers a chunk with a byte that \<open>isPrintableText\<close> rejects.
\<close>

definition printable_chunk :: "read_result \<Rightarrow> bool" where
  "printable_chunk r = (case r of Data b \<Rightarrow> isPrintableText b | _ \<Rightarrow> False)"

definition clean_chunks :: "reader \<Rightarrow> reader" where
  "clean_chunks rd = takeWhile printable_chunk rd"

definition refused_chunk :: "reader \<Rightarrow> bool" where
  "refused_chunk rd =
     (case dropWhile printable_chunk rd of
        Data b # rest \<Rightarrow> True
      | DataEOF b # rest \<Rightarrow> \<not> isPrintableText b
      | _ \<Rightarrow> False)"

text \<open>
  The verdict of \<open>isHTML\<close> on the first 4096 bytes, once \<open>g\<close> was gathered and \<open>s\<close>
  follows: nothing is tested while fewer than 4096 bytes have arrived.
\<close>

definition no_html :: "string option \<Rightarrow> string \<Rightarrow> bool" where
  "no_html fc s = (case fc of None \<Rightarrow> True
     | Some g \<Rightarrow> 4096 \<le> length (g @ s) \<longrightarrow> \<not> isHTML (take 4096 (g @ s)))"

text \<open>
  The claim about one entry \<open>uf\<close> of the update batch, in its words: the descriptor
  is looked up by URL; when there is none the file at the path of the entry is
  removed; when the staged path is empty the descriptors with that URL get the
  \<open>LastUpdated\<close> of the entry and their cache files its modification time; otherwise
  the first descriptor with that URL gets \<open>LastUpdated\<close> and \<open>RuleCount\<close> of the entry
  and the staged file is renamed to its cache path.
\<close>

definition spec_touch :: "env \<Rightarrow> string \<Rightarrow> time \<Rightarrow> world \<Rightarrow> Filter \<Rightarrow> world" where
  "spec_touch e dir t w f =
     snd (os_Chtimes (Chtimes_ok e (filePath dir f)) (filePath dir f) t w)"

definition spec_apply_entry ::
  "env \<Rightarrow> string \<Rightarrow> Filter list \<times> world \<Rightarrow> Filter \<Rightarrow> Filter list \<times> world" where
  "spec_apply_entry e dir lw uf =
     (case lw of (l, w) \<Rightarrow>
        (case find_URL (URL uf) l of
           None \<Rightarrow> (l, os_Remove (filePath dir uf) w)
         | Some i \<Rightarrow>
             if Path uf = [] then
               (map (\<lambda>f. if URL f = URL uf then f\<lparr>LastUpdated := LastUpdated uf\<rparr> else f) l,
                foldl (spec_touch e dir (LastUpdated uf)) w (filter (\<lambda>f. URL f = URL uf) l))
             else
               (l[i := (l ! i)\<lparr>LastUpdated := LastUpdated uf, RuleCount := RuleCount uf\<rparr>],
                snd (os_Rename (Rename_ok e (Path uf) (filePath dir (l ! i))) (Path uf)
                       (filePath dir (l ! i)) w))))"


text \<open>Every \<open>Write\<close> succeeds; the first \<open>Write\<close> fails before any byte.\<close>

definition Write_ok :: "nat \<Rightarrow> nat option" where
  "Write_ok k = None"

definition Write_fails_first :: "nat \<Rightarrow> nat option" where
  "Write_fails_first k = (if k = 0 then Some 0 else None)"

text \<open>
  An environment in which every file operation succeeds and the server answers
  \<open>resp\<close>; a descriptor; a world with one cache file.
\<close>

definition ex_env :: "http_result \<Rightarrow> env" where
  "ex_env resp =
     \<lparr>now = 1000, TempFile = Some ''/filters/tmp1'', NewRequest_ok = (\<lambda>u. True),
      Do = (\<lambda>r. resp), Write_err = Write_ok, Rename_ok = (\<lambda>old new. True),
      Chtimes_ok = (\<lambda>p. True), Read_err = (\<lambda>p. None), pick_now = 1000,
      retry_now = 1000\<rparr>"

text \<open>The same environment, but every read of an opened file fails at once.\<close>

definition ex_env_unreadable :: "http_result \<Rightarrow> env" where
  "ex_env_unreadable resp = (ex_env resp)\<lparr>Read_err := (\<lambda>p. Some 0)\<rparr>"

definition ex_filter :: "64 word \<Rightarrow> string \<Rightarrow> string \<Rightarrow> Filter" where
  "ex_filter i n u = Filter0\<lparr>ID := i, Name := n, URL := u\<rparr>"

definition ex_world :: world where
  "ex_world =
     \<lparr>files = [''/filters/7.txt'' \<mapsto> \<lparr>content = ''old^'', mtime = 5\<rparr>], open_fds = 0,
      trace = []\<rparr>"

definition ex_stg :: "Filter list \<Rightarrow> filterStg" where
  "ex_stg l =
     \<lparr>updated = [], FilterDir = ''/filters'', conf_List = l, UpdateIntervalHours = 24,
      nextID = 6, Users = [1, 2]\<rparr>"

definition ex_url :: string where
  "ex_url = ''http://x/a.txt''"

definition ex_url_b :: string where
  "ex_url_b = ''http://x/b.txt''"

definition ex_old :: Filter where
  "ex_old = (ex_filter 7 ''a'' ex_url)\<lparr>Enabled := True, RuleCount := 1, LastModified := ''Sun''\<rparr>"

text \<open>Sequences of calls of the public operations, results dropped.\<close>

datatype op = OpAdd env Filter | OpDelete string | OpModify env string bool string string

fun run_op :: "filterStg \<times> world \<Rightarrow> op \<Rightarrow> filterStg \<times> world" where
  "run_op (s, w) (OpAdd e nf) = snd (Add e nf s w)"
| "run_op (s, w) (OpDelete url) = snd (Delete url s w)"
| "run_op (s, w) (OpModify e url enabled name newURL) = snd (Modify e url enabled name newURL s w)"

definition run :: "op list \<Rightarrow> filterStg \<times> world \<Rightarrow> filterStg \<times> world" where
  "run ops sw = foldl run_op sw ops"

text \<open>
  An entry of the update batch with a staged file, a world that holds that file, and
  a registry of two enabled filters that are due.
\<close>

definition ex_staged :: Filter where
  "ex_staged = ex_old\<lparr>ID := 9, Path := ''/filters/9.txt'', RuleCount := 2, LastUpdated := 1000\<rparr>"

definition ex_world2 :: world where
  "ex_world2 =
     \<lparr>files = [''/filters/7.txt'' \<mapsto> \<lparr>content = ''old^'', mtime = 5\<rparr>,
               ''/filters/9.txt'' \<mapsto> \<lparr>content = ''||a^'' @ [NL] @ ''||b^'', mtime = 1000\<rparr>],
      open_fds = 0, trace = []\<rparr>"

definition ex_due :: "Filter list" where
  "ex_due = [(ex_filter 3 ''a'' ex_url)\<lparr>Enabled := True\<rparr>,
             (ex_filter 4 ''b'' ex_url_b)\<lparr>Enabled := True\<rparr>]"

text \<open>
  A registry of two filters, a batch with a staged entry for the first, a not-modified
  entry for the second and a staged entry for a URL that is not in the registry, and
  a world with their files.
\<close>

definition ex_live :: "Filter list" where
  "ex_live = [ex_old, ex_filter 8 ''b'' ex_url_b]"

definition ex_batch :: "Filter list" where
  "ex_batch =
     [ex_staged,
      (ex_filter 10 ''b'' ex_url_b)\<lparr>LastUpdated := 1000\<rparr>,
      (ex_filter 11 ''c'' ''http://x/c.txt'')\<lparr>Path := ''/filters/11.txt'', LastUpdated := 1000\<rparr>]"

definition ex_world3 :: world where
  "ex_world3 =
     \<lparr>files = [''/filters/7.txt'' \<mapsto> \<lparr>content = ''old^'', mtime = 5\<rparr>,
               ''/filters/8.txt'' \<mapsto> \<lparr>content = ''||b^'', mtime = 6\<rparr>,
               ''/filters/9.txt'' \<mapsto> \<lparr>content = ''||a^'' @ [NL] @ ''||b^'', mtime = 1000\<rparr>,
               ''/filters/11.txt'' \<mapsto> \<lparr>content = ''||c^'', mtime = 1000\<rparr>],
      open_fds = 0, trace = []\<rparr>"

text \<open>A reader that delivers its stream without a read error.\<close>

fun reads_ok :: "reader \<Rightarrow> bool" where
  "reads_ok [] = True"
| "reads_ok (Data d # rd) = reads_ok rd"
| "reads_ok (DataEOF d # rd) = True"
| "reads_ok (ReadErr # rd) = False"

text \<open>
  The IDs of the registry are distinct and none is above the counter \<open>nextID\<close>.
\<close>

definition ids_ok :: "filterStg \<Rightarrow> bool" where
  "ids_ok s = (distinct (map ID (conf_List s))
      \<and> (\<forall>f \<in> set (conf_List s). unat (ID f) \<le> unat (nextID s)))"

section \<open>Lines and chunks\<close>

lemma split_lines_ne: "split_lines s \<noteq> []"
  by (induction s) (auto split: list.splits)

lemma split_lines_Cons:
  "split_lines (c # cs) =
     (if c = NL then [] # split_lines cs
      else (c # hd (split_lines cs)) # tl (split_lines cs))"
  using split_lines_ne [of cs] by (cases "split_lines cs") auto

declare split_lines.simps(2) [simp del]
declare split_lines_Cons [simp]

lemma IndexByte_ge: "- 1 \<le> IndexByte s b"
  by (induction s) (auto simp: Let_def)

lemma IndexByte_neg_iff: "IndexByte s b < 0 \<longleftrightarrow> b \<notin> set s"
  by (induction s) (auto simp: Let_def)

lemma split_lines_no_NL: "NL \<notin> set s \<Longrightarrow> split_lines s = [s]"
  by (induction s) auto

lemma split_lines_IndexByte:
  "0 \<le> IndexByte s NL \<Longrightarrow>
     split_lines s = take (nat (IndexByte s NL)) s # split_lines (drop (nat (IndexByte s NL) + 1) s)"
proof (induction s)
  case Nil
  then show ?case by simp
next
  case (Cons c cs)
  show ?case
  proof (cases "c = NL")
    case True
    then show ?thesis by simp
  next
    case False
    with Cons.prems have nn: "0 \<le> IndexByte cs NL"
      by (auto simp: Let_def split: if_splits)
    then have eq: "IndexByte (c # cs) NL = IndexByte cs NL + 1"
      using False by (auto simp: Let_def)
    have n: "nat (IndexByte cs NL + 1) = Suc (nat (IndexByte cs NL))"
      using nn by simp
    show ?thesis
      using Cons.IH [OF nn] False by (simp add: eq n del: IndexByte.simps)
  qed
qed

lemma spec_counted_isRule: "spec_counted l = isRule (TrimSpace l)"
  by (auto simp: spec_counted_def isRule_def Let_def)

lemma lines_loop_eof:
  "lines_loop True s s n = ([], n + length (filter spec_counted (split_lines s)))"
proof (induction s arbitrary: n rule: length_induct)
  case (1 s)
  show ?case
  proof (cases "s = []")
    case True
    then show ?thesis
      by (simp add: lines_loop.simps spec_counted_def TrimSpace_def)
  next
    case False
    show ?thesis
    proof (cases "IndexByte s NL < 0")
      case True
      then have "NL \<notin> set s" by (simp add: IndexByte_neg_iff)
      then have sp: "split_lines s = [s]" by (rule split_lines_no_NL)
      have nil: "lines_loop True [] [] m = ([], m)" for m
        by (simp add: lines_loop.simps)
      show ?thesis
        using False True
        by (subst lines_loop.simps) (simp add: splitNext_def sp nil spec_counted_isRule)
    next
      case nneg: False
      define i where "i = nat (IndexByte s NL)"
      have sp: "split_lines s = take i s # split_lines (drop (i + 1) s)"
        using nneg split_lines_IndexByte [of s] by (simp add: i_def)
      have "length (drop (i + 1) s) < length s"
        using False by simp
      with 1 have IH: "lines_loop True (drop (Suc i) s) (drop (Suc i) s) m
          = ([], m + length (filter spec_counted (split_lines (drop (Suc i) s))))" for m
        by simp
      show ?thesis
        using False nneg
        by (subst lines_loop.simps)
           (simp add: splitNext_def sp IH spec_counted_isRule i_def [symmetric])
    qed
  qed
qed

lemma lines_loop_more:
  "lines_loop False s s n =
     (last (split_lines s), n + length (filter spec_counted (butlast (split_lines s))))"
proof (induction s arbitrary: n rule: length_induct)
  case (1 s)
  show ?case
  proof (cases "s = []")
    case True
    then show ?thesis
      by (simp add: lines_loop.simps)
  next
    case False
    show ?thesis
    proof (cases "IndexByte s NL < 0")
      case True
      then have "NL \<notin> set s" by (simp add: IndexByte_neg_iff)
      then have sp: "split_lines s = [s]" by (rule split_lines_no_NL)
      show ?thesis
        using False True
        by (subst lines_loop.simps) (simp add: splitNext_def sp)
    next
      case nneg: False
      define i where "i = nat (IndexByte s NL)"
      have sp: "split_lines s = take i s # split_lines (drop (i + 1) s)"
        using nneg split_lines_IndexByte [of s] by (simp add: i_def)
      have "length (drop (i + 1) s) < length s"
        using False by simp
      with 1 have IH: "lines_loop False (drop (Suc i) s) (drop (Suc i) s) m
          = (last (split_lines (drop (Suc i) s)),
             m + length (filter spec_counted (butlast (split_lines (drop (Suc i) s)))))" for m
        by simp
      show ?thesis
        using False nneg
        by (subst lines_loop.simps)
           (simp add: splitNext_def sp IH spec_counted_isRule i_def [symmetric] split_lines_ne)
    qed
  qed
qed

lemma split_lines_append:
  "split_lines (a @ b) = butlast (split_lines a) @ split_lines (last (split_lines a) @ b)"
proof (induction a)
  case Nil
  then show ?case by simp
next
  case (Cons c cs)
  show ?case
  proof (cases "c = NL")
    case True
    then show ?thesis using Cons.IH by (simp add: split_lines_ne)
  next
    case False
    show ?thesis
    proof (cases "tl (split_lines cs) = []")
      case True
      then have one: "split_lines cs = [hd (split_lines cs)]"
        using split_lines_ne [of cs] by (cases "split_lines cs") auto
      then have l: "last (split_lines cs) = hd (split_lines cs)"
        by (metis last.simps)
      have b: "butlast (split_lines cs) = []"
        by (metis one butlast.simps(2))
      show ?thesis
        using Cons.IH False True by (simp add: l b)
    next
      case ne: False
      then have two: "split_lines cs = hd (split_lines cs) # tl (split_lines cs)"
        using split_lines_ne [of cs] by simp
      have l: "last (split_lines cs) = last (tl (split_lines cs))"
        using ne by (metis two last.simps)
      have b: "butlast (split_lines cs) = hd (split_lines cs) # butlast (tl (split_lines cs))"
        using ne by (metis two butlast.simps(2))
      have h: "hd (split_lines (cs @ b')) = hd (split_lines cs)"
        and t: "tl (split_lines (cs @ b')) = butlast (tl (split_lines cs)) @ split_lines (last (split_lines cs) @ b')"
        if "split_lines (cs @ b') = butlast (split_lines cs) @ split_lines (last (split_lines cs) @ b')" for b'
        using that by (simp_all add: b)
      show ?thesis
        using False ne h [OF Cons.IH] t [OF Cons.IH] by (simp add: l b)
    qed
  qed
qed

section \<open>The loop of writeFile\<close>

lemma isPrintableText_append:
  "isPrintableText (a @ b) = (isPrintableText a \<and> isPrintableText b)"
  by (induction a) auto

lemma isPrintableText_iff: "isPrintableText s = (\<forall>c \<in> set s. printable c)"
  by (induction s) auto

lemma writeFile_body_ok:
  assumes "writeFile_body we k buf eof fc chunk rc out = (None, fc', chunk', rc', out')"
  shows "isPrintableText buf" and "out' = out @ buf"
    and "lines_loop eof (chunk @ buf) (chunk @ buf) rc = (chunk', rc')"
  using assms
  by (auto simp: writeFile_body_def Let_def split: if_splits option.splits prod.splits)

lemma writeFile_body_fc:
  assumes "writeFile_body we k buf eof (Some g) chunk rc out = (None, fc', chunk', rc', out')"
    and "length g < 4096"
  shows "if length (g @ buf) \<ge> 4096 \<or> eof
         then fc' = None \<and> \<not> isHTML (take 4096 (g @ buf))
         else fc' = Some (g @ buf)"
  using assms
  by (auto simp: writeFile_body_def Let_def gatherUntil_def min_def
      split: if_splits option.splits prod.splits)

lemma writeFile_body_NonPrintable:
  "writeFile_body we k buf eof fc chunk rc out = (Some ErrNonPrintable, x) \<Longrightarrow> \<not> isPrintableText buf"
  by (auto simp: writeFile_body_def Let_def split: if_splits option.splits prod.splits)

lemma writeFile_loop_ok:
  "writeFile_loop we k rd fc chunk rc out = (None, rc', out') \<Longrightarrow>
     rc' = rc + length (filter spec_counted (split_lines (chunk @ stream_of rd)))
     \<and> out' = out @ stream_of rd \<and> isPrintableText (stream_of rd)"
proof (induction rd arbitrary: k fc chunk rc out)
  case Nil
  then obtain fc' chunk' where
    "writeFile_body we k [] True fc chunk rc out = (None, fc', chunk', rc', out')"
    by (auto split: prod.splits)
  from writeFile_body_ok [OF this] show ?case
    by (simp add: lines_loop_eof)
next
  case (Cons r rd)
  show ?case
  proof (cases r)
    case (Data buf)
    with Cons.prems obtain fc1 chunk1 rc1 out1 where
      b: "writeFile_body we k buf False fc chunk rc out = (None, fc1, chunk1, rc1, out1)"
      and l: "writeFile_loop we (k + 1) rd fc1 chunk1 rc1 out1 = (None, rc', out')"
      by (auto split: prod.splits option.splits)
    note bo = writeFile_body_ok [OF b]
    from bo(3) have c1: "chunk1 = last (split_lines (chunk @ buf))"
      and r1: "rc1 = rc + length (filter spec_counted (butlast (split_lines (chunk @ buf))))"
      by (simp_all add: lines_loop_more)
    have sp: "split_lines (chunk @ buf @ stream_of rd)
        = butlast (split_lines (chunk @ buf)) @ split_lines (chunk1 @ stream_of rd)"
      using split_lines_append [of "chunk @ buf" "stream_of rd"] by (simp add: c1)
    from Cons.IH [OF l] bo(1,2) show ?thesis
      by (simp add: Data sp r1 isPrintableText_append)
  next
    case (DataEOF buf)
    with Cons.prems obtain fc' chunk' where
      "writeFile_body we k buf True fc chunk rc out = (None, fc', chunk', rc', out')"
      by (auto split: prod.splits)
    from writeFile_body_ok [OF this] show ?thesis
      by (simp add: lines_loop_eof DataEOF)
  next
    case ReadErr
    with Cons.prems show ?thesis by simp
  qed
qed

lemma writeFile_loop_html:
  "writeFile_loop we k rd (Some g) chunk rc out = (None, rc', out') \<Longrightarrow> length g < 4096 \<Longrightarrow>
     \<not> isHTML (take 4096 (g @ stream_of rd))"
proof (induction rd arbitrary: k g chunk rc out)
  case Nil
  then obtain fc' chunk' where
    "writeFile_body we k [] True (Some g) chunk rc out = (None, fc', chunk', rc', out')"
    by (auto split: prod.splits)
  from writeFile_body_fc [OF this Nil.prems(2)] show ?case
    by simp
next
  case (Cons r rd)
  show ?case
  proof (cases r)
    case (Data buf)
    with Cons.prems obtain fc1 chunk1 rc1 out1 where
      b: "writeFile_body we k buf False (Some g) chunk rc out = (None, fc1, chunk1, rc1, out1)"
      and l: "writeFile_loop we (k + 1) rd fc1 chunk1 rc1 out1 = (None, rc', out')"
      by (auto split: prod.splits option.splits)
    note f = writeFile_body_fc [OF b Cons.prems(2)]
    show ?thesis
    proof (cases "length (g @ buf) \<ge> 4096")
      case True
      with f show ?thesis by (simp add: Data)
    next
      case False
      with f have "fc1 = Some (g @ buf)" by simp
      with Cons.IH [of "k + 1" "g @ buf"] l False show ?thesis
        by (simp add: Data)
    qed
  next
    case (DataEOF buf)
    with Cons.prems obtain fc' chunk' where
      "writeFile_body we k buf True (Some g) chunk rc out = (None, fc', chunk', rc', out')"
      by (auto split: prod.splits)
    from writeFile_body_fc [OF this Cons.prems(2)] show ?thesis
      by (simp add: DataEOF)
  next
    case ReadErr
    with Cons.prems show ?thesis by simp
  qed
qed

lemma writeFile_loop_NonPrintable:
  "writeFile_loop we k rd fc chunk rc out = (Some ErrNonPrintable, x) \<Longrightarrow>
     \<not> isPrintableText (stream_of rd)"
proof (induction rd arbitrary: k fc chunk rc out)
  case Nil
  then have "\<exists>y. writeFile_body we k [] True fc chunk rc out = (Some ErrNonPrintable, y)"
    by (auto split: prod.splits)
  then show ?case
    by (auto dest: writeFile_body_NonPrintable)
next
  case (Cons r rd)
  show ?case
  proof (cases r)
    case (Data buf)
    obtain e fc1 chunk1 rc1 out1 where
      b: "writeFile_body we k buf False fc chunk rc out = (e, fc1, chunk1, rc1, out1)"
      by (metis prod_cases5)
    show ?thesis
    proof (cases e)
      case None
      with b Cons.prems Data
      have "writeFile_loop we (k + 1) rd fc1 chunk1 rc1 out1 = (Some ErrNonPrintable, x)"
        by simp
      from Cons.IH [OF this] show ?thesis
        by (simp add: Data isPrintableText_append)
    next
      case (Some er)
      with b Cons.prems Data have "er = ErrNonPrintable" by simp
      with b Some have "\<not> isPrintableText buf"
        by (auto dest: writeFile_body_NonPrintable)
      then show ?thesis
        by (simp add: Data isPrintableText_append)
    qed
  next
    case (DataEOF buf)
    with Cons.prems
    have "\<exists>y. writeFile_body we k buf True fc chunk rc out = (Some ErrNonPrintable, y)"
      by (auto split: prod.splits)
    then show ?thesis
      by (auto dest: writeFile_body_NonPrintable simp: DataEOF)
  next
    case ReadErr
    with Cons.prems show ?thesis by simp
  qed
qed

lemmas text_defs = NL_def TrimSpace_def asciiSpace_def space2_def space3_def isRule_def
  printable_def isHTML_def ToLower_def lowerByte_def gatherUntil_def splitNext_def

lemma spec_ruleCount_example: "spec_ruleCount example_content = 2"
  by (simp add: spec_ruleCount_def example_content_def spec_counted_def text_defs
      split_lines.simps(2) del: split_lines_Cons)

lemma writeFile_ok:
  assumes "writeFile we f rd = (None, f', out)"
  shows "RuleCount f' = of_nat (spec_ruleCount (stream_of rd))"
    and "out = stream_of rd" and "isPrintableText (stream_of rd)"
    and "\<not> isHTML (take 4096 (stream_of rd))"
    and "f' = f\<lparr>RuleCount := RuleCount f'\<rparr>"
proof -
  from assms obtain rc where
    l: "writeFile_loop we 0 rd (Some []) [] 0 [] = (None, rc, out)"
    and f': "f' = f\<lparr>RuleCount := of_nat rc\<rparr>"
    by (auto simp: writeFile_def split: prod.splits option.splits)
  from writeFile_loop_ok [OF l] f'
  show "RuleCount f' = of_nat (spec_ruleCount (stream_of rd))"
    and "out = stream_of rd" and "isPrintableText (stream_of rd)"
    by (simp_all add: spec_ruleCount_def)
  from writeFile_loop_html [OF l] show "\<not> isHTML (take 4096 (stream_of rd))"
    by simp
  from f' show "f' = f\<lparr>RuleCount := RuleCount f'\<rparr>" by simp
qed

text \<open>When exactly \<open>writeFile\<close> returns the non-printable error.\<close>

lemma writeFile_body_err_NonPrintable:
  "fst (writeFile_body we k buf eof fc chunk rc out) = Some ErrNonPrintable
     \<longleftrightarrow> \<not> isPrintableText buf"
  by (auto simp: writeFile_body_def Let_def split: if_splits option.splits prod.splits)

lemma writeFile_body_Data:
  assumes "isPrintableText buf"
    and "case fc of None \<Rightarrow> True | Some g \<Rightarrow> length g < 4096"
    and "writeFile_body we k buf False fc chunk rc out = (er, fc', chunk', rc', out')"
  shows "(er = None \<longleftrightarrow> we k = None \<and> no_html fc buf)"
    and "er = None \<Longrightarrow>
           fc' = (case fc of None \<Rightarrow> None
                  | Some g \<Rightarrow> if 4096 \<le> length (g @ buf) then None else Some (g @ buf))"
    and "er \<noteq> Some ErrNonPrintable"
  using assms
  by (auto simp: writeFile_body_def Let_def gatherUntil_def min_def no_html_def
      split: if_splits option.splits prod.splits)

lemma writeFile_loop_NonPrintable_iff:
  "(case fc of None \<Rightarrow> True | Some g \<Rightarrow> length g < 4096) \<Longrightarrow>
   fst (writeFile_loop we k rd fc chunk rc out) = Some ErrNonPrintable \<longleftrightarrow>
     refused_chunk rd \<and> (\<forall>j < length (clean_chunks rd). we (k + j) = None)
     \<and> no_html fc (stream_of (clean_chunks rd))"
proof (induction rd arbitrary: k fc chunk rc out)
  case Nil
  have "fst (writeFile_body we k [] True fc chunk rc out) \<noteq> Some ErrNonPrintable"
    by (simp add: writeFile_body_err_NonPrintable)
  then show ?case
    by (auto simp: refused_chunk_def split: prod.splits)
next
  case (Cons r rd)
  show ?case
  proof (cases r)
    case ReadErr
    then show ?thesis
      by (simp add: refused_chunk_def printable_chunk_def)
  next
    case (DataEOF buf)
    have "fst (writeFile_loop we k (r # rd) fc chunk rc out)
        = fst (writeFile_body we k buf True fc chunk rc out)"
      by (simp add: DataEOF split: prod.splits)
    with Cons.prems show ?thesis
      by (auto simp: writeFile_body_err_NonPrintable DataEOF refused_chunk_def
          printable_chunk_def clean_chunks_def no_html_def split: option.splits)
  next
    case (Data buf)
    show ?thesis
    proof (cases "isPrintableText buf")
      case False
      then have "fst (writeFile_body we k buf False fc chunk rc out) = Some ErrNonPrintable"
        by (simp add: writeFile_body_err_NonPrintable)
      then have "fst (writeFile_loop we k (r # rd) fc chunk rc out) = Some ErrNonPrintable"
        by (auto simp: Data split: prod.splits option.splits)
      with False Cons.prems show ?thesis
        by (auto simp: Data refused_chunk_def printable_chunk_def clean_chunks_def no_html_def
            split: option.splits)
    next
      case True
      obtain er fc1 chunk1 rc1 out1 where
        b: "writeFile_body we k buf False fc chunk rc out = (er, fc1, chunk1, rc1, out1)"
        by (metis prod_cases5)
      note bd = writeFile_body_Data [OF True Cons.prems b]
      have rf: "refused_chunk (r # rd) = refused_chunk rd"
        and cl: "clean_chunks (r # rd) = Data buf # clean_chunks rd"
        using True by (simp_all add: Data refused_chunk_def printable_chunk_def clean_chunks_def)
      have all: "(\<forall>j < length (clean_chunks (r # rd)). we (k + j) = None)
          \<longleftrightarrow> we k = None \<and> (\<forall>j < length (clean_chunks rd). we (k + 1 + j) = None)"
        unfolding cl by (auto simp: less_Suc_eq_0_disj)
      show ?thesis
      proof (cases er)
        case (Some x)
        with b bd(3) have "fst (writeFile_loop we k (r # rd) fc chunk rc out) \<noteq> Some ErrNonPrintable"
          by (simp add: Data)
        moreover from Some bd(1) have "\<not> (we k = None \<and> no_html fc buf)" by simp
        then have "\<not> (we k = None \<and> no_html fc (stream_of (clean_chunks (r # rd))))"
          using Cons.prems
          by (auto simp: cl no_html_def split: option.splits)
        ultimately show ?thesis
          using all by blast
      next
        case None
        with bd have wk: "we k = None" and nh: "no_html fc buf"
          and fc1: "fc1 = (case fc of None \<Rightarrow> None
                  | Some g \<Rightarrow> if 4096 \<le> length (g @ buf) then None else Some (g @ buf))"
          by simp_all
        have inv: "case fc1 of None \<Rightarrow> True | Some g \<Rightarrow> length g < 4096"
          by (simp add: fc1 split: option.splits)
        have step: "fst (writeFile_loop we k (r # rd) fc chunk rc out)
            = fst (writeFile_loop we (k + 1) rd fc1 chunk1 rc1 out1)"
          using b None by (simp add: Data)
        have nh': "no_html fc (stream_of (clean_chunks (r # rd)))
            = no_html fc1 (stream_of (clean_chunks rd))"
          using nh Cons.prems
          by (auto simp: cl fc1 no_html_def split: option.splits)
        show ?thesis
          unfolding step Cons.IH [OF inv] rf all nh' using wk by simp
      qed
    qed
  qed
qed

lemma writeFile_NonPrintable_iff:
  "fst (writeFile we f rd) = Some ErrNonPrintable \<longleftrightarrow>
     refused_chunk rd \<and> (\<forall>j < length (clean_chunks rd). we j = None)
     \<and> (4096 \<le> length (stream_of (clean_chunks rd))
          \<longrightarrow> \<not> isHTML (take 4096 (stream_of (clean_chunks rd))))"
proof -
  have "fst (writeFile we f rd) = fst (writeFile_loop we 0 rd (Some []) [] 0 [])"
    by (auto simp: writeFile_def split: prod.splits option.splits)
  then show ?thesis
    using writeFile_loop_NonPrintable_iff [of "Some []" we 0 rd "[]" 0 "[]"]
    by (simp add: no_html_def)
qed

section \<open>When writeFile succeeds; parseFilter\<close>

lemma writeFile_body_succeeds:
  assumes "isPrintableText buf" and "we k = None"
    and "case fc of None \<Rightarrow> True
         | Some g \<Rightarrow> length g < 4096
             \<and> ((length (g @ buf) \<ge> 4096 \<or> eof) \<longrightarrow> \<not> isHTML (take 4096 (g @ buf)))"
  shows "\<exists>fc' chunk' rc' out'.
           writeFile_body we k buf eof fc chunk rc out = (None, fc', chunk', rc', out')
           \<and> (case fc of None \<Rightarrow> fc' = None
               | Some g \<Rightarrow> fc' = (if length (g @ buf) \<ge> 4096 \<or> eof then None else Some (g @ buf)))"
  using assms
  by (cases fc)
     (auto simp: writeFile_body_def Let_def gatherUntil_def min_def split: prod.splits)

lemma writeFile_loop_succeeds:
  assumes "reads_ok rd" and "isPrintableText (stream_of rd)" and "\<forall>k. we k = None"
    and "case fc of None \<Rightarrow> True
         | Some g \<Rightarrow> length g < 4096 \<and> \<not> isHTML (take 4096 (g @ stream_of rd))"
  shows "fst (writeFile_loop we k rd fc chunk rc out) = None"
  using assms
proof (induction rd arbitrary: k fc chunk rc out)
  case Nil
  have "\<exists>fc' chunk' rc' out'.
      writeFile_body we k [] True fc chunk rc out = (None, fc', chunk', rc', out')
      \<and> (case fc of None \<Rightarrow> fc' = None
          | Some g \<Rightarrow> fc' = (if length (g @ []) \<ge> 4096 \<or> True then None else Some (g @ [])))"
    using Nil.prems by (intro writeFile_body_succeeds) (auto split: option.splits)
  then show ?case by auto
next
  case (Cons r rd)
  show ?case
  proof (cases r)
    case (Data buf)
    from Cons.prems Data have pb: "isPrintableText buf" and pr: "isPrintableText (stream_of rd)"
      by (simp_all add: isPrintableText_append)
    have c: "case fc of None \<Rightarrow> True
         | Some g \<Rightarrow> length g < 4096
             \<and> ((length (g @ buf) \<ge> 4096 \<or> False) \<longrightarrow> \<not> isHTML (take 4096 (g @ buf)))"
      using Cons.prems(4) Data by (auto split: option.splits)
    from writeFile_body_succeeds [OF pb _ c, of we k chunk rc out] Cons.prems(3)
    obtain fc' chunk' rc' out' where
      b: "writeFile_body we k buf False fc chunk rc out = (None, fc', chunk', rc', out')"
      and f: "case fc of None \<Rightarrow> fc' = None
          | Some g \<Rightarrow> fc' = (if length (g @ buf) \<ge> 4096 \<or> False then None else Some (g @ buf))"
      by auto
    have c': "case fc' of None \<Rightarrow> True
         | Some g \<Rightarrow> length g < 4096 \<and> \<not> isHTML (take 4096 (g @ stream_of rd))"
      using f Cons.prems(4) Data by (auto split: option.splits if_splits)
    from Cons.prems Data have ro: "reads_ok rd" by simp
    from Cons.IH [OF ro pr Cons.prems(3) c', of "k + 1" chunk' rc' out'] b Data show ?thesis
      by simp
  next
    case (DataEOF buf)
    have "\<exists>fc' chunk' rc' out'.
      writeFile_body we k buf True fc chunk rc out = (None, fc', chunk', rc', out')
      \<and> (case fc of None \<Rightarrow> fc' = None
          | Some g \<Rightarrow> fc' = (if length (g @ buf) \<ge> 4096 \<or> True then None else Some (g @ buf)))"
      using Cons.prems DataEOF by (intro writeFile_body_succeeds) (auto split: option.splits)
    with DataEOF show ?thesis by auto
  next
    case ReadErr
    with Cons.prems show ?thesis by simp
  qed
qed

lemma writeFile_succeeds:
  assumes "reads_ok rd" and "isPrintableText (stream_of rd)" and "\<forall>k. we k = None"
    and "\<not> isHTML (take 4096 (stream_of rd))"
  shows "writeFile we f rd
           = (None, f\<lparr>RuleCount := of_nat (spec_ruleCount (stream_of rd))\<rparr>, stream_of rd)"
proof -
  have "fst (writeFile_loop we 0 rd (Some []) [] 0 []) = None"
    using assms(4) by (intro writeFile_loop_succeeds [OF assms(1,2,3)]) simp
  then obtain rc out where "writeFile_loop we 0 rd (Some []) [] 0 [] = (None, rc, out)"
    by (metis prod.collapse)
  then obtain f' where w: "writeFile we f rd = (None, f', out)"
    by (simp add: writeFile_def)
  note ok = writeFile_ok [OF w]
  from ok(5) ok(1) have "f' = f\<lparr>RuleCount := of_nat (spec_ruleCount (stream_of rd))\<rparr>"
    by simp
  with w ok(2) show ?thesis by simp
qed

lemma example_content_valid:
  "isPrintableText example_content" "\<not> isHTML (take 4096 example_content)"
  by (simp_all add: example_content_def text_defs)

text \<open>\<open>parseFilter\<close> counts the same lines as \<open>writeFile\<close>.\<close>

lemma not_space_NL: "\<not> space2 a NL" "\<not> space3 a b NL" "asciiSpace NL"
  by (auto simp: space2_def space3_def asciiSpace_def NL_def)

lemma trimLeft_NL:
  "trimLeft (l @ [NL]) = (if trimLeft l = [] then [] else trimLeft l @ [NL])"
  by (induction l rule: trimLeft.induct) (auto simp: not_space_NL)

lemma trimRev_NL: "trimRev (NL # x) = trimRev x"
proof (cases x)
  case Nil
  then show ?thesis by (simp add: not_space_NL)
next
  case (Cons a y)
  then show ?thesis by (cases y) (simp_all add: not_space_NL)
qed

lemma TrimSpace_NL: "TrimSpace (l @ [NL]) = TrimSpace l"
  by (simp add: TrimSpace_def trimLeft_NL trimRev_NL)

lemma split_lines_NL: "NL \<notin> set l \<Longrightarrow> split_lines (l @ NL # r) = l # split_lines r"
  by (induction l) auto

lemma last_split_lines_no_NL: "NL \<notin> set (last (split_lines s))"
  by (induction s)
     (auto simp: split_lines.simps(2) split_lines_ne simp del: split_lines_Cons
       split: list.splits if_splits)

lemma parse_chunk_spec:
  "NL \<notin> set line \<Longrightarrow>
     parse_chunk s line n =
       (last (split_lines (line @ s)),
        n + length (filter spec_counted (butlast (split_lines (line @ s)))))"
proof (induction s arbitrary: line n)
  case Nil
  then show ?case
    by (simp add: split_lines_no_NL)
next
  case (Cons c cs)
  show ?case
  proof (cases "c = NL")
    case True
    have "parse_chunk cs [] m =
        (last (split_lines cs), m + length (filter spec_counted (butlast (split_lines cs))))" for m
      using Cons.IH [of "[]" m] by simp
    with True Cons.prems show ?thesis
      by (simp add: split_lines_NL TrimSpace_NL spec_counted_isRule [symmetric] split_lines_ne)
  next
    case False
    with Cons.prems have "NL \<notin> set (line @ [c])" by simp
    from Cons.IH [OF this, of n] False show ?thesis by simp
  qed
qed

lemma count_split_lines:
  "length (filter spec_counted (split_lines s)) =
     length (filter spec_counted (butlast (split_lines s)))
     + (if spec_counted (last (split_lines s)) then 1 else 0)"
proof -
  have "split_lines s = butlast (split_lines s) @ [last (split_lines s)]"
    by (simp add: split_lines_ne)
  then have "filter spec_counted (split_lines s)
      = filter spec_counted (butlast (split_lines s) @ [last (split_lines s)])"
    by simp
  then show ?thesis
    by (simp del: append_butlast_last_id)
qed

lemma parse_loop_spec:
  "NL \<notin> set line \<Longrightarrow>
     parse_loop rd line n =
       (if reads_ok rd
        then Inr (n + length (filter spec_counted (split_lines (line @ stream_of rd))))
        else Inl ErrRead)"
proof (induction rd arbitrary: line n)
  case Nil
  then show ?case
    by (simp add: parse_last_def split_lines_no_NL spec_counted_isRule [symmetric])
next
  case (Cons r rd)
  show ?case
  proof (cases r)
    case (Data d)
    have nl: "NL \<notin> set (last (split_lines (line @ d)))"
      by (rule last_split_lines_no_NL)
    have sp: "split_lines (line @ d @ stream_of rd)
        = butlast (split_lines (line @ d))
          @ split_lines (last (split_lines (line @ d)) @ stream_of rd)"
      using split_lines_append [of "line @ d" "stream_of rd"] by simp
    from Cons.IH [OF nl] Cons.prems show ?thesis
      by (simp add: Data parse_chunk_spec sp)
  next
    case (DataEOF d)
    with Cons.prems show ?thesis
      by (simp add: parse_chunk_spec parse_last_def spec_counted_isRule [symmetric]
          count_split_lines [of "line @ d"])
  next
    case ReadErr
    then show ?thesis by simp
  qed
qed

lemma parseFilter_eq:
  "parseFilter f rd =
     (if reads_ok rd then (None, f\<lparr>RuleCount := of_nat (spec_ruleCount (stream_of rd))\<rparr>)
      else (Some ErrRead, f))"
  using parse_loop_spec [of "[]" rd 0] by (simp add: parseFilter_def spec_ruleCount_def)

text \<open>Reading a file.\<close>

lemma chunks_of_concat: "0 < n \<Longrightarrow> concat (chunks_of n s) = s"
proof (induction n s rule: chunks_of.induct)
  case (1 n s)
  then show ?case
    by (subst chunks_of.simps) auto
qed

lemma stream_of_Data: "stream_of (map Data cs) = concat cs"
  by (induction cs) auto

lemma reads_ok_Data: "reads_ok (map Data cs)" "\<not> reads_ok (map Data cs @ ReadErr # rd)"
  by (induction cs) auto

lemma reads_ok_file_reads: "reads_ok (file_reads n err s) = (err = None)"
  by (cases err) (simp_all add: file_reads_def reads_ok_Data)

lemma stream_of_file_reads: "0 < n \<Longrightarrow> stream_of (file_reads n None s) = s"
  by (simp add: file_reads_def stream_of_Data chunks_of_concat)

lemma parseFilter_file:
  "0 < n \<Longrightarrow>
     parseFilter f (file_reads n err s) =
       (if err = None then (None, f\<lparr>RuleCount := of_nat (spec_ruleCount s)\<rparr>)
        else (Some ErrRead, f))"
  by (auto simp: parseFilter_eq reads_ok_file_reads stream_of_file_reads)

section \<open>Claims about writeFile\<close>

text \<open>
  C4. When \<open>writeFile\<close> succeeds, the rule count it stores is the number of lines of the
  whole stream (split on line breaks, however the stream was cut into chunks, the last
  line with or without a line break) that after trimming are neither empty nor start
  with \<open>#\<close> or \<open>!\<close>. For the example content of the specification, delivered in any
  chunks without a read or write error, \<open>writeFile\<close> succeeds with the rule count 2.
\<close>

theorem writeFile_counts_rule_lines:
  "(writeFile we f rd = (None, f', out) \<longrightarrow>
       RuleCount f' = of_nat (spec_ruleCount (stream_of rd)))
   \<and> (reads_ok rd \<and> (\<forall>k. we k = None) \<and> stream_of rd = example_content \<longrightarrow>
       writeFile we f rd = (None, f\<lparr>RuleCount := 2\<rparr>, example_content))"
proof -
  have "RuleCount f' = of_nat (spec_ruleCount (stream_of rd))"
    if "writeFile we f rd = (None, f', out)"
    using writeFile_ok(1) [OF that] .
  moreover have "writeFile we f rd = (None, f\<lparr>RuleCount := 2\<rparr>, example_content)"
    if "reads_ok rd" "\<forall>k. we k = None" "stream_of rd = example_content"
    using writeFile_succeeds [OF that(1) _ that(2), of f] example_content_valid that(3)
    by (simp add: spec_ruleCount_example)
  ultimately show ?thesis by blast
qed

theorem writeFile_counts_rule_lines_witness:
  "reads_ok [Data (''# c'' @ [NL] @ ''||ads.ex''), Data (''ample^'' @ [NL] @ [NL] @ ''! c2''),
       Data ([NL] @ ''||track.net^'' @ [NL])]
   \<and> stream_of [Data (''# c'' @ [NL] @ ''||ads.ex''), Data (''ample^'' @ [NL] @ [NL] @ ''! c2''),
       Data ([NL] @ ''||track.net^'' @ [NL])] = example_content
   \<and> writeFile Write_ok Filter0
      [Data (''# c'' @ [NL] @ ''||ads.ex''), Data (''ample^'' @ [NL] @ [NL] @ ''! c2''),
       Data ([NL] @ ''||track.net^'' @ [NL])]
     = (None, Filter0\<lparr>RuleCount := 2\<rparr>, example_content)
   \<and> RuleCount (Filter0\<lparr>RuleCount := 2\<rparr>) = of_nat (spec_ruleCount example_content)"
proof -
  have r: "reads_ok [Data (''# c'' @ [NL] @ ''||ads.ex''), Data (''ample^'' @ [NL] @ [NL] @ ''! c2''),
       Data ([NL] @ ''||track.net^'' @ [NL])]"
    by simp
  have s: "stream_of [Data (''# c'' @ [NL] @ ''||ads.ex''), Data (''ample^'' @ [NL] @ [NL] @ ''! c2''),
       Data ([NL] @ ''||track.net^'' @ [NL])] = example_content"
    by (simp add: example_content_def)
  have k: "\<forall>k. Write_ok k = None"
    by (simp add: Write_ok_def)
  from writeFile_counts_rule_lines [of Write_ok Filter0
      "[Data (''# c'' @ [NL] @ ''||ads.ex''), Data (''ample^'' @ [NL] @ [NL] @ ''! c2''),
        Data ([NL] @ ''||track.net^'' @ [NL])]" "Filter0\<lparr>RuleCount := 2\<rparr>" example_content]
    r s k
  show ?thesis by (simp add: spec_ruleCount_example)
qed

section \<open>The branches of downloadFilter\<close>

lemma writeFile_body_errors:
  "writeFile_body we k buf eof fc chunk rc out = (Some er, x) \<Longrightarrow>
     er \<in> {ErrNonPrintable, ErrHTML, ErrWrite}"
  by (auto simp: writeFile_body_def Let_def split: if_splits option.splits prod.splits)

lemma writeFile_loop_errors:
  "writeFile_loop we k rd fc chunk rc out = (Some er, x) \<Longrightarrow>
     er \<in> {ErrRead, ErrNonPrintable, ErrHTML, ErrWrite}"
proof (induction rd arbitrary: k fc chunk rc out)
  case Nil
  then have "\<exists>y. writeFile_body we k [] True fc chunk rc out = (Some er, y)"
    by (auto split: prod.splits)
  then show ?case
    by (auto dest: writeFile_body_errors)
next
  case (Cons r rd)
  show ?case
  proof (cases r)
    case (Data buf)
    obtain e fc1 chunk1 rc1 out1 where
      b: "writeFile_body we k buf False fc chunk rc out = (e, fc1, chunk1, rc1, out1)"
      by (metis prod_cases5)
    show ?thesis
    proof (cases e)
      case None
      with b Cons.prems Data
      have "writeFile_loop we (k + 1) rd fc1 chunk1 rc1 out1 = (Some er, x)"
        by simp
      from Cons.IH [OF this] show ?thesis .
    next
      case (Some er')
      with b Cons.prems Data have "er' = er" by simp
      with b Some show ?thesis
        by (auto dest: writeFile_body_errors)
    qed
  next
    case (DataEOF buf)
    with Cons.prems
    have "\<exists>y. writeFile_body we k buf True fc chunk rc out = (Some er, y)"
      by (auto split: prod.splits)
    then show ?thesis
      by (auto dest: writeFile_body_errors)
  next
    case ReadErr
    with Cons.prems show ?thesis by simp
  qed
qed

lemma writeFile_errors:
  "writeFile we f rd = (Some er, x) \<Longrightarrow> er \<in> {ErrRead, ErrNonPrintable, ErrHTML, ErrWrite}"
  by (auto simp: writeFile_def split: prod.splits option.splits dest: writeFile_loop_errors)

lemma filePath_update [simp]:
  "filePath dir (f\<lparr>RuleCount := rc\<rparr>) = filePath dir f"
  "filePath dir (f\<lparr>LastModified := lm\<rparr>) = filePath dir f"
  "filePath dir (f\<lparr>LastUpdated := t\<rparr>) = filePath dir f"
  "filePath dir (f\<lparr>Path := p\<rparr>) = filePath dir f"
  "filePath dir (f\<lparr>Enabled := b\<rparr>) = filePath dir f"
  "filePath dir (f\<lparr>Name := n\<rparr>) = filePath dir f"
  "filePath dir (f\<lparr>URL := u\<rparr>) = filePath dir f"
  "filePath dir (f\<lparr>nextUpdate := t\<rparr>) = filePath dir f"
  "filePath dir (f\<lparr>networkError := b\<rparr>) = filePath dir f"
  by (simp_all add: filePath_def)

lemma downloadFilter_write_cases:
  assumes "downloadFilter_write dir e f tmp rd w = (r, f', w')"
    and "files w tmp \<noteq> None"
  shows "trace w' = trace w \<and> open_fds w' = open_fds w - 1
     \<and> networkError f' = networkError f \<and> ID f' = ID f \<and> URL f' = URL f
     \<and> LastModified f' = LastModified f
     \<and> r \<notin> Some ` {ErrExists, ErrNotFound, ErrTempFile, ErrOpenFile, ErrNewRequest, ErrTransport}
     \<and> (\<forall>n. r \<noteq> Some (ErrHTTPStatus n))
     \<and> (case r of
          Some er \<Rightarrow> files w' = (files w)(tmp := None)
        | None \<Rightarrow>
            files w' = ((files w)(tmp := None))
                         (filePath dir f \<mapsto> \<lparr>content = stream_of rd, mtime = now e\<rparr>)
            \<and> isPrintableText (stream_of rd) \<and> \<not> isHTML (take 4096 (stream_of rd))
            \<and> f' = f\<lparr>RuleCount := of_nat (spec_ruleCount (stream_of rd)),
                     Path := filePath dir f, LastUpdated := now e\<rparr>)"
proof -
  obtain r1 f1 out where wf: "writeFile (Write_err e) f rd = (r1, f1, out)"
    by (metis prod_cases3)
  show ?thesis
  proof (cases r1)
    case (Some er)
    with wf have "f1 = f"
      by (auto simp: writeFile_def split: prod.splits option.splits)
    with assms wf Some writeFile_errors [of "Write_err e" f rd er "(f1, out)"] show ?thesis
      by (auto simp: downloadFilter_write_def cleanup_def os_Remove_def close_fd_def
          write_file_def)
  next
    case None
    note ok = writeFile_ok [OF wf [unfolded None]]
    have f1: "f1 = f\<lparr>RuleCount := of_nat (spec_ruleCount (stream_of rd))\<rparr>"
      using ok(1,5) by simp
    show ?thesis
      using assms wf None ok(2,3,4)
      by (auto simp: downloadFilter_write_def cleanup_def os_Remove_def close_fd_def
          write_file_def os_Rename_def Let_def f1 split: if_splits)
  qed
qed

lemma writeFile_loop_reads_ok:
  "fst (writeFile_loop we k rd fc chunk rc out) = None \<Longrightarrow> reads_ok rd"
proof (induction rd arbitrary: k fc chunk rc out)
  case Nil
  then show ?case by simp
next
  case (Cons r rd)
  show ?case
  proof (cases r)
    case (Data buf)
    with Cons.prems Cons.IH show ?thesis
      by (auto split: prod.splits option.splits)
  next
    case (DataEOF buf)
    then show ?thesis by simp
  next
    case ReadErr
    with Cons.prems show ?thesis by simp
  qed
qed

lemma writeFile_reads_ok: "fst (writeFile we f rd) = None \<Longrightarrow> reads_ok rd"
  using writeFile_loop_reads_ok [of we 0 rd "Some []" "[]" 0 "[]"]
  by (auto simp: writeFile_def split: prod.splits option.splits)

lemma downloadFilter_write_reads_ok:
  "downloadFilter_write dir e f tmp rd w = (None, f', w') \<Longrightarrow> reads_ok rd"
  using writeFile_reads_ok [of "Write_err e" f rd]
  by (auto simp: downloadFilter_write_def Let_def split: prod.splits option.splits if_splits)

lemma files_create_remove:
  "files w tmp = None \<Longrightarrow> (files ((write_file tmp c t w)\<lparr>open_fds := n\<rparr>))(tmp := None) = files w"
  by (auto simp: write_file_def)

lemma cleanup_created:
  "files w tmp = None \<Longrightarrow>
     cleanup True tmp (w\<lparr>files := (files w)(tmp \<mapsto> x), open_fds := Suc (open_fds w),
        trace := tr\<rparr>) = w\<lparr>trace := tr\<rparr>"
  by (cases w) (auto simp: cleanup_def os_Remove_def close_fd_def)

lemma cleanup_created':
  "files w tmp = None \<Longrightarrow>
     cleanup True tmp (w\<lparr>files := (files w)(tmp \<mapsto> x), open_fds := Suc (open_fds w)\<rparr>) = w"
  by (cases w) (auto simp: cleanup_def os_Remove_def close_fd_def)

text \<open>What a call of downloadFilter can do, branch by branch.\<close>

lemma downloadFilter_TempFile_fails:
  "TempFile e = None \<or> (\<exists>tmp. TempFile e = Some tmp \<and> files w tmp \<noteq> None) \<Longrightarrow>
     downloadFilter dir e f w = (Some ErrTempFile, f, w)"
  by (auto simp: downloadFilter_def)

lemma downloadFilter_local:
  assumes "TempFile e = Some tmp" "files w tmp = None" "IsAbs (URL f)"
  shows "downloadFilter dir e f w =
     (case files ((write_file tmp [] (now e) w)\<lparr>open_fds := open_fds w + 1\<rparr>) (URL f) of
        None \<Rightarrow> (Some ErrOpenFile, f, w)
      | Some src \<Rightarrow>
          (case downloadFilter_write dir e f tmp (file_reads 65536 (Read_err e (URL f)) (content src))
                  ((write_file tmp [] (now e) w)\<lparr>open_fds := open_fds w + 2\<rparr>) of
             (err, f1, w1) \<Rightarrow> (err, f1, close_fd w1)))"
  using assms
  by (auto simp: downloadFilter_def Let_def cleanup_created' write_file_def split: option.splits)

lemma downloadFilter_http:
  assumes "TempFile e = Some tmp" "files w tmp = None" "\<not> IsAbs (URL f)"
  shows "downloadFilter dir e f w =
     (if \<not> NewRequest_ok e (URL f) then (Some ErrNewRequest, f, w)
      else
        (case Do e (request_for f) of
           TransportError \<Rightarrow>
             (Some ErrTransport, f\<lparr>networkError := True\<rparr>,
              w\<lparr>trace := trace w @ [HTTPGet (request_for f)]\<rparr>)
         | Response code lm body \<Rightarrow>
             if code = 304
             then (None, f\<lparr>LastUpdated := now e, Path := []\<rparr>,
                   w\<lparr>trace := trace w @ [HTTPGet (request_for f)]\<rparr>)
             else if code \<noteq> 200
             then (Some (ErrHTTPStatus code), f,
                   w\<lparr>trace := trace w @ [HTTPGet (request_for f)]\<rparr>)
             else downloadFilter_write dir e (f\<lparr>LastModified := lm\<rparr>) tmp body
                    ((write_file tmp [] (now e) w)
                       \<lparr>open_fds := open_fds w + 1,
                        trace := trace w @ [HTTPGet (request_for f)]\<rparr>)))"
  using assms
  by (auto simp: downloadFilter_def Let_def cleanup_created cleanup_created' write_file_def
      split: http_result.splits)

lemma downloadFilter_cases:
  assumes "downloadFilter dir e f w = (r, f', w')"
  shows "open_fds w' = open_fds w \<and> ID f' = ID f \<and> URL f' = URL f
     \<and> networkError f' = (networkError f \<or> r = Some ErrTransport)
     \<and> (case r of
          Some er \<Rightarrow> files w' = files w
        | None \<Rightarrow>
            (Path f' = [] \<and> files w' = files w \<and> RuleCount f' = RuleCount f
               \<and> LastModified f' = LastModified f \<and> LastUpdated f' = now e)
          \<or> (\<exists>c. files w' = (files w)(filePath dir f \<mapsto> \<lparr>content = c, mtime = now e\<rparr>)
                \<and> isPrintableText c \<and> \<not> isHTML (take 4096 c)
                \<and> Path f' = filePath dir f \<and> LastUpdated f' = now e
                \<and> RuleCount f' = of_nat (spec_ruleCount c)))"
proof (cases "TempFile e")
  case None
  with assms show ?thesis
    by (auto simp: downloadFilter_TempFile_fails)
next
  case (Some tmp)
  show ?thesis
  proof (cases "files w tmp = None")
    case False
    with Some assms show ?thesis
      by (auto simp: downloadFilter_TempFile_fails)
  next
    case fresh: True
    show ?thesis
    proof (cases "IsAbs (URL f)")
      case True
      let ?w0 = "(write_file tmp [] (now e) w)\<lparr>open_fds := open_fds w + 1\<rparr>"
      let ?w2 = "(write_file tmp [] (now e) w)\<lparr>open_fds := open_fds w + 2\<rparr>"
      show ?thesis
      proof (cases "files ?w0 (URL f)")
        case None
        with assms Some fresh True show ?thesis
          by (auto simp: downloadFilter_local)
      next
        case (Some src)
        obtain r1 f1 w1 where
          dw: "downloadFilter_write dir e f tmp (file_reads 65536 (Read_err e (URL f)) (content src)) ?w2 = (r1, f1, w1)"
          by (metis prod_cases3)
        have ex: "files ?w2 tmp \<noteq> None"
          by (simp add: write_file_def)
        have rm: "(files ?w2)(tmp := None) = files w"
          using fresh by (auto simp: write_file_def)
        from assms \<open>TempFile e = Some tmp\<close> fresh True Some dw
        have res: "r = r1" "f' = f1" "w' = close_fd w1"
          by (simp_all add: downloadFilter_local)
        from downloadFilter_write_cases [OF dw ex] show ?thesis
          unfolding res rm
          by (cases r1) (auto simp: close_fd_def)
      qed
    next
      case False
      note http = downloadFilter_http [OF Some fresh False, of dir]
      show ?thesis
      proof (cases "NewRequest_ok e (URL f)")
        case False
        with assms http show ?thesis by auto
      next
        case True
        show ?thesis
        proof (cases "Do e (request_for f)")
          case TransportError
          with assms http True show ?thesis by auto
        next
          case (Response code lm body)
          let ?w1 = "(write_file tmp [] (now e) w)
             \<lparr>open_fds := open_fds w + 1, trace := trace w @ [HTTPGet (request_for f)]\<rparr>"
          show ?thesis
          proof (cases "code = 200")
            case False
            with assms http True Response show ?thesis
              by (auto split: if_splits)
          next
            case c200: True
            with assms http True Response
            have dw: "downloadFilter_write dir e (f\<lparr>LastModified := lm\<rparr>) tmp body ?w1
                = (r, f', w')"
              by simp
            have ex: "files ?w1 tmp \<noteq> None"
              by (simp add: write_file_def)
            have rm: "(files ?w1)(tmp := None) = files w"
              using fresh by (auto simp: write_file_def)
            from downloadFilter_write_cases [OF dw ex] show ?thesis
              unfolding rm
              by (cases r) auto
          qed
        qed
      qed
    qed
  qed
qed

lemmas eval_defs = downloadFilter_def downloadFilter_write_def writeFile_def writeFile_body_def
  lines_loop.simps text_defs ex_env_def ex_filter_def ex_world_def Filter0_def
  cleanup_def os_Remove_def os_Rename_def close_fd_def write_file_def IsAbs_def request_for_def
  filePath_def decimal.simps Let_def char_of_def bit_Suc_0_iff Write_ok_def
  filepath_Join_def filepath_Clean_def file_reads_def chunks_of.simps parse_last_def

lemma printable_spec: "printable c = (spec_printable c \<or> (128::nat) \<le> of_char c)"
  by (auto simp: printable_def spec_printable_def)

lemma writeFile_NonPrintable:
  "fst (writeFile we f rd) = Some ErrNonPrintable \<Longrightarrow> \<not> isPrintableText (stream_of rd)"
  by (auto simp: writeFile_def split: prod.splits option.splits
      dest: writeFile_loop_NonPrintable)

lemma writeFile_fails_nonprintable:
  "\<not> isPrintableText (stream_of rd) \<Longrightarrow> fst (writeFile we f rd) \<noteq> None"
proof
  assume np: "\<not> isPrintableText (stream_of rd)" and "fst (writeFile we f rd) = None"
  then obtain f' out where "writeFile we f rd = (None, f', out)"
    by (metis prod.collapse)
  from writeFile_ok(3) [OF this] np show False by simp
qed

lemma zero_not_printable: "CHR 0x00 \<in> set s \<Longrightarrow> \<not> isPrintableText s"
proof -
  have "\<not> printable (CHR 0x00)"
    by (simp add: printable_def)
  then show "CHR 0x00 \<in> set s \<Longrightarrow> \<not> isPrintableText s"
    by (auto simp: isPrintableText_iff)
qed

lemma request_for_update [simp]:
  "request_for (f\<lparr>ID := i\<rparr>) = request_for f"
  "request_for (f\<lparr>Enabled := b\<rparr>) = request_for f"
  by (simp_all add: request_for_def)

lemma downloadFilter_http200:
  assumes "\<not> IsAbs (URL f)" "Do e (request_for f) = Response 200 lm body"
    and "downloadFilter dir e f w = (None, f', w')"
  shows "isPrintableText (stream_of body)" and "\<not> isHTML (take 4096 (stream_of body))"
    and "files w' = (files w)(filePath dir f \<mapsto> \<lparr>content = stream_of body, mtime = now e\<rparr>)"
proof -
  from assms(3) obtain tmp where tmp: "TempFile e = Some tmp" "files w tmp = None"
    by (cases "TempFile e"; cases "files w (the (TempFile e)) = None")
       (auto simp: downloadFilter_TempFile_fails)
  let ?w1 = "(write_file tmp [] (now e) w)
     \<lparr>open_fds := open_fds w + 1, trace := trace w @ [HTTPGet (request_for f)]\<rparr>"
  from assms downloadFilter_http [OF tmp assms(1), of dir]
  have dw: "downloadFilter_write dir e (f\<lparr>LastModified := lm\<rparr>) tmp body ?w1 = (None, f', w')"
    by (auto split: if_splits)
  have ex: "files ?w1 tmp \<noteq> None"
    by (simp add: write_file_def)
  have rm: "(files ?w1)(tmp := None) = files w"
    using tmp by (auto simp: write_file_def)
  from downloadFilter_write_cases [OF dw ex]
  show "isPrintableText (stream_of body)" and "\<not> isHTML (take 4096 (stream_of body))"
    and "files w' = (files w)(filePath dir f \<mapsto> \<lparr>content = stream_of body, mtime = now e\<rparr>)"
    unfolding rm by simp_all
qed

lemma downloadFilter_local_ok:
  assumes "IsAbs (URL f)" "files w (URL f) = Some src"
    and "downloadFilter dir e f w = (None, f', w')"
  shows "isPrintableText (content src)" and "\<not> isHTML (take 4096 (content src))"
    and "files w' = (files w)(filePath dir f \<mapsto> \<lparr>content = content src, mtime = now e\<rparr>)"
proof -
  from assms(3) obtain tmp where tmp: "TempFile e = Some tmp" "files w tmp = None"
    by (cases "TempFile e"; cases "files w (the (TempFile e)) = None")
       (auto simp: downloadFilter_TempFile_fails)
  let ?w2 = "(write_file tmp [] (now e) w)\<lparr>open_fds := open_fds w + 2\<rparr>"
  from tmp assms(2) have ne: "URL f \<noteq> tmp" by auto
  then have src: "files ((write_file tmp [] (now e) w)\<lparr>open_fds := open_fds w + 1\<rparr>) (URL f) = Some src"
    using assms(2) by (simp add: write_file_def)
  obtain r1 f1 w1 where
    dw: "downloadFilter_write dir e f tmp (file_reads 65536 (Read_err e (URL f)) (content src)) ?w2 = (r1, f1, w1)"
    by (metis prod_cases3)
  from assms(3) downloadFilter_local [OF tmp assms(1), of dir] src dw
  have res: "r1 = None" "f' = f1" "w' = close_fd w1"
    by simp_all
  have ex: "files ?w2 tmp \<noteq> None"
    by (simp add: write_file_def)
  have rm: "(files ?w2)(tmp := None) = files w"
    using tmp by (auto simp: write_file_def)
  from downloadFilter_write_reads_ok [OF dw [unfolded res(1)]]
  have st: "stream_of (file_reads 65536 (Read_err e (URL f)) (content src)) = content src"
    by (simp add: reads_ok_file_reads stream_of_file_reads)
  from downloadFilter_write_cases [OF dw ex]
  show "isPrintableText (content src)" and "\<not> isHTML (take 4096 (content src))"
    and "files w' = (files w)(filePath dir f \<mapsto> \<lparr>content = content src, mtime = now e\<rparr>)"
    unfolding rm res st by (simp_all add: close_fd_def)
qed

lemma Add_error_keeps_list:
  "fst (Add e nf s w) \<noteq> None \<Longrightarrow> conf_List (fst (snd (Add e nf s w))) = conf_List s"
  by (auto simp: Add_def Let_def nextFilterID_def split: prod.splits option.splits if_splits)

lemma Add_fails_http:
  assumes "\<not> IsAbs (URL nf)" "Do e (request_for nf) = Response 200 lm body"
    and "\<not> isPrintableText (stream_of body)"
  shows "fst (Add e nf s w) \<noteq> None"
proof
  assume "fst (Add e nf s w) = None"
  then obtain f' w' where
    "downloadFilter (FilterDir s) e (nf\<lparr>ID := nextID s + 1, Enabled := True\<rparr>) (lock w)
       = (None, f', w')"
    by (auto simp: Add_def Let_def nextFilterID_def split: prod.splits option.splits if_splits)
  from downloadFilter_http200(1) [OF _ _ this, of lm body] assms show False
    by simp
qed

lemma Add_fails_local:
  assumes "IsAbs (URL nf)" "files w (URL nf) = Some src"
    and "\<not> isPrintableText (content src)"
  shows "fst (Add e nf s w) \<noteq> None"
proof
  assume "fst (Add e nf s w) = None"
  then obtain f' w' where
    "downloadFilter (FilterDir s) e (nf\<lparr>ID := nextID s + 1, Enabled := True\<rparr>) (lock w)
       = (None, f', w')"
    by (auto simp: Add_def Let_def nextFilterID_def split: prod.splits option.splits if_splits)
  from downloadFilter_local_ok(1) [OF _ _ this, of src] assms show False
    by (simp add: lock_def)
qed


section \<open>Claims about downloadFilter\<close>

text \<open>
  C1. Every call of \<open>downloadFilter\<close> leaves the number of open handles as it was; a
  call that fails leaves the files exactly as they were (the temporary file is gone,
  no cache file was touched); and the only change a call can make to the files is to
  put a content that passed both validations at \<open>filePath\<close> of the descriptor.
\<close>

theorem downloadFilter_no_orphan:
  "downloadFilter dir e f w = (r, f', w') \<Longrightarrow>
     open_fds w' = open_fds w
     \<and> (r \<noteq> None \<longrightarrow> files w' = files w)
     \<and> (files w' = files w
        \<or> (r = None \<and>
            (\<exists>c. files w' = (files w)(filePath dir f \<mapsto> \<lparr>content = c, mtime = now e\<rparr>)
               \<and> isPrintableText c \<and> \<not> isHTML (take 4096 c))))"
  using downloadFilter_cases [of dir e f w r f' w']
  by (cases r) auto

theorem downloadFilter_no_orphan_witness:
  "downloadFilter ''/filters''
      (ex_env (Response 200 ''Mon'' [Data (''||a^'' @ [NL]), Data [CHR 0x00]]))
      (ex_filter 7 ''a'' ''http://x/a.txt'') ex_world
   = (Some ErrNonPrintable, (ex_filter 7 ''a'' ''http://x/a.txt'')\<lparr>LastModified := ''Mon''\<rparr>,
      ex_world\<lparr>trace := [HTTPGet \<lparr>req_url = ''http://x/a.txt'', If_Modified_Since = None\<rparr>]\<rparr>)
   \<and> files (ex_world\<lparr>trace := [HTTPGet \<lparr>req_url = ''http://x/a.txt'', If_Modified_Since = None\<rparr>]\<rparr>)
       = files ex_world
   \<and> files ex_world ''/filters/7.txt'' = Some \<lparr>content = ''old^'', mtime = 5\<rparr>"
proof -
  have h: "downloadFilter ''/filters''
      (ex_env (Response 200 ''Mon'' [Data (''||a^'' @ [NL]), Data [CHR 0x00]]))
      (ex_filter 7 ''a'' ''http://x/a.txt'') ex_world
   = (Some ErrNonPrintable, (ex_filter 7 ''a'' ''http://x/a.txt'')\<lparr>LastModified := ''Mon''\<rparr>,
      ex_world\<lparr>trace := [HTTPGet \<lparr>req_url = ''http://x/a.txt'', If_Modified_Since = None\<rparr>]\<rparr>)"
    by (simp add: eval_defs)
  from downloadFilter_no_orphan [OF h] h show ?thesis
    by (simp add: ex_world_def)
qed



text \<open>
  C5, as the code has it. \<open>writeFile\<close> returns the non-printable error exactly when
  the first read that is not an accepted chunk delivers a chunk with a byte that
  \<open>isPrintableText\<close> refuses, no \<open>Write\<close> of the chunks before it failed and the first
  4096 bytes, when those chunks hold as many, are not HTML; within one chunk the test
  for printable bytes comes before the one for HTML. It returns that error only if the
  stream has a refused byte, and it never succeeds on such a stream; the refused bytes
  are those below \<open>0x20\<close> other than LF, CR and TAB, and \<open>0x7F\<close>, so the bytes \<open>0x80\<close>
  to \<open>0xFF\<close> are accepted. A stream with a zero byte makes \<open>writeFile\<close> fail, and \<open>Add\<close>
  with such a payload (from the network or from a local file) returns an error and
  leaves the registry as it was.
\<close>

theorem writeFile_rejects_nonprintable:
  "(fst (writeFile we f rd) = Some ErrNonPrintable \<longleftrightarrow>
      refused_chunk rd \<and> (\<forall>j < length (clean_chunks rd). we j = None)
      \<and> (4096 \<le> length (stream_of (clean_chunks rd))
           \<longrightarrow> \<not> isHTML (take 4096 (stream_of (clean_chunks rd)))))
   \<and> (fst (writeFile we f rd) = Some ErrNonPrintable \<longrightarrow> (\<exists>c \<in> set (stream_of rd). \<not> printable c))
   \<and> ((\<exists>c \<in> set (stream_of rd). \<not> printable c) \<longrightarrow> fst (writeFile we f rd) \<noteq> None)
   \<and> (printable c = (spec_printable c \<or> (128::nat) \<le> of_char c))
   \<and> (CHR 0x00 \<in> set (stream_of rd) \<longrightarrow> fst (writeFile we f rd) \<noteq> None)
   \<and> (\<not> IsAbs (URL nf) \<and> Do e (request_for nf) = Response 200 lm rd
        \<and> CHR 0x00 \<in> set (stream_of rd)
      \<longrightarrow> fst (Add e nf s w) \<noteq> None \<and> conf_List (fst (snd (Add e nf s w))) = conf_List s)
   \<and> (IsAbs (URL nf) \<and> files w (URL nf) = Some src \<and> CHR 0x00 \<in> set (content src)
      \<longrightarrow> fst (Add e nf s w) \<noteq> None \<and> conf_List (fst (snd (Add e nf s w))) = conf_List s)"
proof -
  have "(fst (writeFile we f rd) = Some ErrNonPrintable \<longrightarrow> (\<exists>c \<in> set (stream_of rd). \<not> printable c))
   \<and> ((\<exists>c \<in> set (stream_of rd). \<not> printable c) \<longrightarrow> fst (writeFile we f rd) \<noteq> None)
   \<and> (printable c = (spec_printable c \<or> (128::nat) \<le> of_char c))
   \<and> (CHR 0x00 \<in> set (stream_of rd) \<longrightarrow> fst (writeFile we f rd) \<noteq> None)
   \<and> (\<not> IsAbs (URL nf) \<and> Do e (request_for nf) = Response 200 lm rd
        \<and> CHR 0x00 \<in> set (stream_of rd)
      \<longrightarrow> fst (Add e nf s w) \<noteq> None \<and> conf_List (fst (snd (Add e nf s w))) = conf_List s)
   \<and> (IsAbs (URL nf) \<and> files w (URL nf) = Some src \<and> CHR 0x00 \<in> set (content src)
      \<longrightarrow> fst (Add e nf s w) \<noteq> None \<and> conf_List (fst (snd (Add e nf s w))) = conf_List s)"
    using writeFile_NonPrintable [of we f rd] writeFile_fails_nonprintable [of rd we f]
      zero_not_printable [of "stream_of rd"] zero_not_printable [of "content src"]
      Add_fails_http [of nf e lm rd s w] Add_fails_local [of nf w src e s]
      Add_error_keeps_list [of e nf s w]
    by (auto simp: isPrintableText_iff printable_spec)
  with writeFile_NonPrintable_iff [of we f rd] show ?thesis
    by blast
qed

theorem writeFile_rejects_nonprintable_witness:
  "fst (writeFile Write_ok Filter0 [Data (''||a^'' @ [NL]), Data [CHR 0x00]]) = Some ErrNonPrintable
   \<and> refused_chunk [Data (''||a^'' @ [NL]), Data [CHR 0x00]]
   \<and> clean_chunks [Data (''||a^'' @ [NL]), Data [CHR 0x00]] = [Data (''||a^'' @ [NL])]
   \<and> Write_ok 0 = None
   \<and> CHR 0x00 \<in> set (stream_of [Data (''||a^'' @ [NL]), Data [CHR 0x00]])
   \<and> fst (Add (ex_env (Response 200 ''Mon'' [Data (''||a^'' @ [NL]), Data [CHR 0x00]]))
            (ex_filter 0 ''a'' ''http://x/a.txt'')
            (ex_stg []) ex_world) \<noteq> None
   \<and> isHTML (''<html>'' @ [CHR 0x00])
   \<and> refused_chunk [DataEOF (''<html>'' @ [CHR 0x00])]
   \<and> clean_chunks [DataEOF (''<html>'' @ [CHR 0x00])] = []
   \<and> fst (writeFile Write_ok Filter0 [DataEOF (''<html>'' @ [CHR 0x00])]) = Some ErrNonPrintable
   \<and> \<not> refused_chunk [DataEOF ''<html>'']
   \<and> fst (writeFile Write_ok Filter0 [DataEOF ''<html>'']) = Some ErrHTML"
proof -
  have h: "fst (writeFile Write_ok Filter0 [Data (''||a^'' @ [NL]), Data [CHR 0x00]])
      = Some ErrNonPrintable"
    "fst (writeFile Write_ok Filter0 [DataEOF ''<html>'']) = Some ErrHTML"
    by code_simp+
  have r: "refused_chunk [Data (''||a^'' @ [NL]), Data [CHR 0x00]]"
    "clean_chunks [Data (''||a^'' @ [NL]), Data [CHR 0x00]] = [Data (''||a^'' @ [NL])]"
    "refused_chunk [DataEOF (''<html>'' @ [CHR 0x00])]"
    "clean_chunks [DataEOF (''<html>'' @ [CHR 0x00])] = []"
    "\<not> refused_chunk [DataEOF ''<html>'']"
    by (simp_all add: refused_chunk_def clean_chunks_def printable_chunk_def text_defs)
  have k: "Write_ok 0 = None" "\<forall>j < length [Data (''||a^'' @ [NL])]. Write_ok j = None"
    "\<forall>j < length ([] :: reader). Write_ok j = None"
    by (simp_all add: Write_ok_def)
  have t: "isHTML (''<html>'' @ [CHR 0x00])"
    by code_simp
  have z: "CHR 0x00 \<in> set (stream_of [Data (''||a^'' @ [NL]), Data [CHR 0x00]])"
    by simp
  have a: "\<not> IsAbs (URL (ex_filter 0 ''a'' ''http://x/a.txt''))"
    by (simp add: IsAbs_def ex_filter_def)
  have d: "Do (ex_env (Response 200 ''Mon'' [Data (''||a^'' @ [NL]), Data [CHR 0x00]]))
      (request_for (ex_filter 0 ''a'' ''http://x/a.txt''))
      = Response 200 ''Mon'' [Data (''||a^'' @ [NL]), Data [CHR 0x00]]"
    by (simp add: ex_env_def)
  have n: "fst (writeFile Write_ok Filter0 [DataEOF (''<html>'' @ [CHR 0x00])])
      = Some ErrNonPrintable"
    using writeFile_rejects_nonprintable
      [of Write_ok Filter0 "[DataEOF (''<html>'' @ [CHR 0x00])]"] r(3,4)
    by simp
  from writeFile_rejects_nonprintable
    [of Write_ok Filter0 "[Data (''||a^'' @ [NL]), Data [CHR 0x00]]" _ "ex_filter 0 ''a'' ''http://x/a.txt''"
      "ex_env (Response 200 ''Mon'' [Data (''||a^'' @ [NL]), Data [CHR 0x00]])" "''Mon''"]
    h r k t z a d n
  show ?thesis by blast
qed

text \<open>
  The claim C5 as stated fails: a rule with the two bytes of a UTF-8 letter lies
  outside the stated set and is accepted; and a stream with a zero byte is rejected
  with the write error when the first \<open>Write\<close> fails before the zero byte is read.
\<close>

theorem writeFile_nonprintable_counterexample:
  "\<not> spec_printable (CHR 0xC3)
   \<and> CHR 0xC3 \<in> set (stream_of [Data (''||caf'' @ [CHR 0xC3, CHR 0xA9] @ ''.example^'' @ [NL])])
   \<and> fst (writeFile Write_ok Filter0
            [Data (''||caf'' @ [CHR 0xC3, CHR 0xA9] @ ''.example^'' @ [NL])]) = None
   \<and> \<not> spec_printable (CHR 0x00)
   \<and> CHR 0x00 \<in> set (stream_of [Data ''||a^'', Data [CHR 0x00]])
   \<and> fst (writeFile Write_fails_first Filter0 [Data ''||a^'', Data [CHR 0x00]]) = Some ErrWrite"
proof -
  have "fst (writeFile Write_ok Filter0
            [Data (''||caf'' @ [CHR 0xC3, CHR 0xA9] @ ''.example^'' @ [NL])]) = None"
    by code_simp
  moreover have "fst (writeFile Write_fails_first Filter0 [Data ''||a^'', Data [CHR 0x00]])
      = Some ErrWrite"
    by code_simp
  ultimately show ?thesis
    by (simp add: spec_printable_def)
qed

section \<open>The branches of Modify\<close>

lemma find_URL_Some:
  "find_URL url l = Some i \<Longrightarrow> i < length l \<and> URL (l ! i) = url \<and> (\<forall>j < i. URL (l ! j) \<noteq> url)"
proof (induction l arbitrary: i)
  case Nil
  then show ?case by simp
next
  case (Cons f fs)
  show ?case
  proof (cases "URL f = url")
    case True
    with Cons.prems show ?thesis by simp
  next
    case False
    with Cons.prems obtain k where k: "find_URL url fs = Some k" "i = Suc k"
      by auto
    from Cons.IH [OF k(1)] False k(2) show ?thesis
      by (auto simp: nth_Cons split: nat.splits)
  qed
qed

lemma find_URL_None: "find_URL url l = None \<longleftrightarrow> url \<notin> URL ` set l"
  by (induction l) auto

lemma Modify_plan_frame:
  "Modify_plan e st enabled f s w = (f1, nd, s1) \<Longrightarrow>
     conf_List s1 = conf_List s \<and> FilterDir s1 = FilterDir s \<and> updated s1 = updated s
     \<and> Users s1 = Users s \<and> UpdateIntervalHours s1 = UpdateIntervalHours s
     \<and> Name f1 = Name f \<and> URL f1 = URL f \<and> Enabled f1 = Enabled f"
  by (auto simp: Modify_plan_def nextFilterID_def parseFilter_def
      split: if_splits option.splits sum.splits)

lemma Modify_at_failure:
  assumes "i < length (conf_List s)"
    and "Modify_fields (conf_List s ! i) enabled name newURL = (f, st)"
    and "Modify_plan e st enabled f s w = (f1, True, s1)"
    and "downloadFilter (FilterDir s1) e (f1\<lparr>LastModified := [], RuleCount := 0\<rparr>) w
           = (Some er, f2, w1)"
  shows "Modify_at e i enabled name newURL s w = (({}, Filter0, Some er), s1, w1)"
proof -
  from Modify_plan_frame [OF assms(3)] have l: "conf_List s1 = conf_List s" by simp
  have "((conf_List s1)[i := f2])[i := conf_List s ! i] = conf_List s1"
    by (simp add: l)
  then show ?thesis
    using assms by (simp add: Modify_at_def Let_def)
qed

lemma Modify_at_error:
  assumes "Modify_at e i enabled name newURL s w = ((st, prev, Some er), s', w')"
  shows "st = {} \<and> prev = Filter0 \<and> conf_List s' = conf_List s \<and> files w' = files w
     \<and> FilterDir s' = FilterDir s \<and> updated s' = updated s"
proof -
  obtain f st0 where mf: "Modify_fields (conf_List s ! i) enabled name newURL = (f, st0)"
    by (metis prod.collapse)
  obtain f1 nd s1 where mp: "Modify_plan e st0 enabled f s w = (f1, nd, s1)"
    by (metis prod_cases3)
  note fr = Modify_plan_frame [OF mp]
  from assms mf mp have nd: nd
    by (auto simp: Modify_at_def Let_def split: if_splits)
  obtain r f2 w1 where
    dl: "downloadFilter (FilterDir s1) e (f1\<lparr>LastModified := [], RuleCount := 0\<rparr>) w = (r, f2, w1)"
    by (metis prod_cases3)
  from assms mf mp nd dl have r: "r = Some er" and res: "st = {}" "prev = Filter0" "w' = w1"
      "s' = s1\<lparr>conf_List := ((conf_List s1)[i := f2])[i := conf_List s ! i]\<rparr>"
    by (auto simp: Modify_at_def Let_def split: option.splits)
  from downloadFilter_cases [OF dl] r have "files w1 = files w" by simp
  with res fr show ?thesis by simp
qed

lemma Modify_failure:
  assumes "find_URL url (conf_List s) = Some i"
    and "Modify_fields (conf_List s ! i) enabled name newURL = (f, st)"
    and "Modify_plan e st enabled f s (lock w) = (f1, True, s1)"
    and "downloadFilter (FilterDir s1) e (f1\<lparr>LastModified := [], RuleCount := 0\<rparr>) (lock w)
           = (Some er, f2, w1)"
  shows "Modify e url enabled name newURL s w = (({}, Filter0, Some er), s1, unlock w1)"
proof -
  from assms(1) have i: "i < length (conf_List s)"
    using find_URL_Some by blast
  from Modify_at_failure [OF i assms(2,3,4)] assms(1) show ?thesis
    by (simp add: Modify_def Let_def)
qed

lemma Modify_error:
  assumes "Modify e url enabled name newURL s w = ((st, prev, Some er), s', w')"
  shows "st = {} \<and> prev = Filter0 \<and> conf_List s' = conf_List s \<and> files w' = files w"
proof (cases "find_URL url (conf_List s)")
  case None
  with assms show ?thesis
    by (auto simp: Modify_def Let_def lock_def unlock_def)
next
  case (Some i)
  with assms obtain w1 where
    "Modify_at e i enabled name newURL s (lock w) = ((st, prev, Some er), s', w1)"
    and "w' = unlock w1"
    by (auto simp: Modify_def Let_def split: prod.splits)
  with Modify_at_error [OF this(1)] show ?thesis
    by (simp add: lock_def unlock_def)
qed

lemma Modify_fields_same_url:
  "URL f = url \<Longrightarrow>
     Modify_fields f enabled name url
       = (f\<lparr>Name := name, Enabled := enabled\<rparr>,
          if Enabled f \<noteq> enabled then {StatusChangedEnabled} else {})"
  by (cases f) (auto simp: Modify_fields_def Let_def)

text \<open>
  Switched on, URL unchanged, cache file opened: the rule count is the one of the
  file when every read succeeds, and the stored one when a read fails.
\<close>

lemma Modify_reparse:
  assumes "find_URL url (conf_List s) = Some i" and "\<not> Enabled (conf_List s ! i)"
    and "files w (filePath (FilterDir s) (conf_List s ! i)) = Some fl"
  shows "Modify e url True name url s w =
     (({StatusChangedEnabled}, conf_List s ! i, None),
      s\<lparr>conf_List := (conf_List s)
           [i := (if Read_err e (filePath (FilterDir s) (conf_List s ! i)) = None
                  then (conf_List s ! i)\<lparr>Name := name, Enabled := True,
                          RuleCount := of_nat (spec_ruleCount (content fl))\<rparr>
                  else (conf_List s ! i)\<lparr>Name := name, Enabled := True\<rparr>)]\<rparr>,
      unlock (lock w))"
proof -
  from find_URL_Some [OF assms(1)] have u: "URL (conf_List s ! i) = url" by simp
  show ?thesis
    using assms
    by (simp add: Modify_def Modify_at_def Modify_plan_def Let_def Modify_fields_same_url [OF u]
        lock_def parseFilter_file)
qed

text \<open>Switched on, URL unchanged, cache file cannot be opened.\<close>

lemma Modify_redownload:
  assumes "find_URL url (conf_List s) = Some i" and "\<not> Enabled (conf_List s ! i)"
    and "files w (filePath (FilterDir s) (conf_List s ! i)) = None"
  shows "Modify e url True name url s w =
     (case downloadFilter (FilterDir s) e
             ((conf_List s ! i)\<lparr>Name := name, Enabled := True, LastModified := [], RuleCount := 0\<rparr>)
             (lock w) of
        (Some er, f2, w1) \<Rightarrow> (({}, Filter0, Some er), s, unlock w1)
      | (None, f2, w1) \<Rightarrow>
          (({StatusChangedEnabled}, conf_List s ! i, None),
           s\<lparr>conf_List := (conf_List s)[i := f2]\<rparr>, unlock w1))"
proof -
  from find_URL_Some [OF assms(1)] have u: "URL (conf_List s ! i) = url" by simp
  show ?thesis
    using assms
    by (simp add: Modify_def Modify_at_def Modify_plan_def Let_def Modify_fields_same_url [OF u]
        lock_def split: prod.splits option.splits)
qed

text \<open>Enabled stays as it is (or is switched off), URL unchanged.\<close>

lemma Modify_no_reparse:
  assumes "find_URL url (conf_List s) = Some i" and "Enabled (conf_List s ! i) \<or> \<not> enabled"
  shows "Modify e url enabled name url s w =
     ((if Enabled (conf_List s ! i) \<noteq> enabled then {StatusChangedEnabled} else {},
       conf_List s ! i, None),
      s\<lparr>conf_List := (conf_List s)[i := (conf_List s ! i)\<lparr>Name := name, Enabled := enabled\<rparr>]\<rparr>,
      unlock (lock w))"
proof -
  from find_URL_Some [OF assms(1)] have u: "URL (conf_List s ! i) = url" by simp
  show ?thesis
    using assms
    by (auto simp: Modify_def Modify_at_def Modify_plan_def Let_def Modify_fields_same_url [OF u]
        lock_def)
qed

text \<open>The IDs stay distinct while the counter does not wrap around.\<close>

lemma unat_next: "unat (x :: 64 word) < 2 ^ 64 - 1 \<Longrightarrow> unat (x + 1) = unat x + 1"
proof -
  assume "unat x < 2 ^ 64 - 1"
  then have "unat x + unat (1 :: 64 word) < 2 ^ LENGTH(64)"
    by simp
  then have "unat (x + 1) = unat x + unat (1 :: 64 word)"
    by (simp only: unat_add_lem)
  then show ?thesis by simp
qed

lemma Delete_loop_filter:
  "fst (Delete_loop url l nf found) = nf @ filter (\<lambda>f. URL f \<noteq> url) l"
  by (induction l arbitrary: nf found) auto

lemma ids_ok_replace:
  assumes "ids_ok s" and "i < length (conf_List s)"
    and "ID x = ID (conf_List s ! i) \<and> n = nextID s
         \<or> ID x = nextID s + 1 \<and> n = nextID s + 1 \<and> unat (nextID s) < 2 ^ 64 - 1"
  shows "ids_ok (s\<lparr>conf_List := (conf_List s)[i := x], nextID := n\<rparr>)"
proof -
  from assms(1) have d: "distinct (map ID (conf_List s))"
    and b: "\<forall>f \<in> set (conf_List s). unat (ID f) \<le> unat (nextID s)"
    by (simp_all add: ids_ok_def)
  from assms(3) show ?thesis
  proof
    assume a: "ID x = ID (conf_List s ! i) \<and> n = nextID s"
    then have "map ID ((conf_List s)[i := x]) = map ID (conf_List s)"
      using assms(2) by (simp add: map_update list_update_same_conv)
    moreover have "\<forall>f \<in> set ((conf_List s)[i := x]). unat (ID f) \<le> unat (nextID s)"
      using b a assms(2) set_update_subset_insert [of "conf_List s" i x]
      by (auto simp: nth_mem)
    ultimately show ?thesis
      using d a by (simp add: ids_ok_def)
  next
    assume a: "ID x = nextID s + 1 \<and> n = nextID s + 1 \<and> unat (nextID s) < 2 ^ 64 - 1"
    then have u: "unat (nextID s + 1) = unat (nextID s) + 1"
      by (simp add: unat_next)
    have "ID x \<notin> set (map ID (conf_List s))"
    proof
      assume "ID x \<in> set (map ID (conf_List s))"
      then obtain f where "f \<in> set (conf_List s)" "ID f = ID x" by auto
      with b a u show False by fastforce
    qed
    then have "distinct ((map ID (conf_List s))[i := ID x])"
      using d by (intro distinct_list_update) auto
    then have "distinct (map ID ((conf_List s)[i := x]))"
      by (simp add: map_update)
    moreover have "\<forall>f \<in> set ((conf_List s)[i := x]). unat (ID f) \<le> unat (nextID s + 1)"
      using b a u set_update_subset_insert [of "conf_List s" i x]
      by fastforce
    ultimately show ?thesis
      using a by (simp add: ids_ok_def)
  qed
qed

lemma ids_ok_nextID:
  "ids_ok s \<Longrightarrow> unat (nextID s) < 2 ^ 64 - 1 \<Longrightarrow> ids_ok (s\<lparr>nextID := nextID s + 1\<rparr>)"
  by (auto simp: ids_ok_def unat_next)

lemma ids_ok_Add:
  assumes "ids_ok s" and "unat (nextID s) < 2 ^ 64 - 1"
  shows "ids_ok (fst (snd (Add e nf s w)))
     \<and> unat (nextID (fst (snd (Add e nf s w)))) \<le> unat (nextID s) + 1"
proof (cases "list_ex (\<lambda>f. Name f = Name nf \<or> URL f = URL nf) (conf_List s)")
  case True
  with assms show ?thesis by (simp add: Add_def Let_def)
next
  case False
  obtain r nf1 w1 where
    dl: "downloadFilter (FilterDir s) e (nf\<lparr>ID := nextID s + 1, Enabled := True\<rparr>) (lock w)
           = (r, nf1, w1)"
    by (metis prod_cases3)
  from downloadFilter_cases [OF dl] have idn: "ID nf1 = nextID s + 1" by simp
  note u = unat_next [OF assms(2)]
  show ?thesis
  proof (cases r)
    case (Some er)
    with False dl assms u ids_ok_nextID [OF assms] show ?thesis
      by (simp add: Add_def Let_def nextFilterID_def)
  next
    case None
    from assms(1) have d: "distinct (map ID (conf_List s))"
      and b: "\<forall>f \<in> set (conf_List s). unat (ID f) \<le> unat (nextID s)"
      by (simp_all add: ids_ok_def)
    have "ID nf1 \<notin> ID ` set (conf_List s)"
      using b idn u by fastforce
    with d b idn u have "ids_ok (s\<lparr>nextID := nextID s + 1, conf_List := conf_List s @ [nf1]\<rparr>)"
      by (auto simp: ids_ok_def)
    with None False dl u show ?thesis
      by (simp add: Add_def Let_def nextFilterID_def)
  qed
qed

lemma ids_ok_Delete:
  assumes "ids_ok s"
  shows "ids_ok (fst (snd (Delete url s w)))
     \<and> nextID (fst (snd (Delete url s w))) = nextID s"
proof -
  obtain nf found where dl: "Delete_loop url (conf_List s) [] None = (nf, found)"
    by (metis prod.collapse)
  with Delete_loop_filter [of url "conf_List s" "[]" None]
  have nf: "nf = filter (\<lambda>f. URL f \<noteq> url) (conf_List s)" by simp
  from assms have "ids_ok (s\<lparr>conf_List := nf\<rparr>)"
    by (auto simp: ids_ok_def nf distinct_map_filter)
  with assms dl show ?thesis
    by (cases found) (simp_all add: Delete_def Let_def)
qed

lemma Modify_fields_ID: "Modify_fields f enabled name newURL = (f1, st) \<Longrightarrow> ID f1 = ID f"
  by (auto simp: Modify_fields_def Let_def split: if_splits)

lemma Modify_plan_ID:
  "Modify_plan e st enabled f s w = (f1, nd, s1) \<Longrightarrow>
     (ID f1 = ID f \<and> s1 = s) \<or> (ID f1 = nextID s + 1 \<and> s1 = s\<lparr>nextID := nextID s + 1\<rparr>)"
  by (auto simp: Modify_plan_def nextFilterID_def parseFilter_def
      split: if_splits option.splits sum.splits)

lemma ids_ok_Modify:
  assumes "ids_ok s" and "unat (nextID s) < 2 ^ 64 - 1"
  shows "ids_ok (fst (snd (Modify e url enabled name newURL s w)))
     \<and> unat (nextID (fst (snd (Modify e url enabled name newURL s w)))) \<le> unat (nextID s) + 1"
proof (cases "find_URL url (conf_List s)")
  case None
  with assms show ?thesis by (simp add: Modify_def Let_def)
next
  case (Some i)
  from find_URL_Some [OF Some] have i: "i < length (conf_List s)" by simp
  obtain f st where mf: "Modify_fields (conf_List s ! i) enabled name newURL = (f, st)"
    by (metis prod.collapse)
  obtain f1 nd s1 where mp: "Modify_plan e st enabled f s (lock w) = (f1, nd, s1)"
    by (metis prod_cases3)
  obtain r f2 w1 where
    dl: "downloadFilter (FilterDir s1) e (f1\<lparr>LastModified := [], RuleCount := 0\<rparr>) (lock w)
           = (r, f2, w1)"
    by (metis prod_cases3)
  from downloadFilter_cases [OF dl] have id2: "ID f2 = ID f1" by simp
  note u = unat_next [OF assms(2)]
  from Modify_plan_ID [OF mp] Modify_fields_ID [OF mf]
  have pl: "(ID f1 = ID (conf_List s ! i) \<and> s1 = s)
      \<or> (ID f1 = nextID s + 1 \<and> s1 = s\<lparr>nextID := nextID s + 1\<rparr>)"
    by simp
  have keep: "ids_ok s1 \<and> unat (nextID s1) \<le> unat (nextID s) + 1"
    using pl assms u ids_ok_nextID [OF assms] by auto
  have repl: "ids_ok (s1\<lparr>conf_List := (conf_List s1)[i := x]\<rparr>)" if "ID x = ID f1" for x
  proof -
    from pl that
    have "ID x = ID (conf_List s ! i) \<and> nextID s1 = nextID s
         \<or> ID x = nextID s + 1 \<and> nextID s1 = nextID s + 1 \<and> unat (nextID s) < 2 ^ 64 - 1"
      using assms(2) by auto
    from ids_ok_replace [OF assms(1) i this] pl show ?thesis
      by (auto simp: ids_ok_def)
  qed
  have res: "fst (snd (Modify e url enabled name newURL s w))
      = (if nd then (case r of Some er \<Rightarrow> s1\<lparr>conf_List := ((conf_List s1)[i := f2])[i := conf_List s ! i]\<rparr>
                              | None \<Rightarrow> s1\<lparr>conf_List := (conf_List s1)[i := f2]\<rparr>)
         else s1\<lparr>conf_List := (conf_List s1)[i := f1]\<rparr>)"
    using Some mf mp dl
    by (simp add: Modify_def Modify_at_def Let_def split: option.splits prod.splits)
  have l1: "conf_List s1 = conf_List s"
    using pl by auto
  have restore: "s1\<lparr>conf_List := ((conf_List s1)[i := f2])[i := conf_List s ! i]\<rparr> = s1"
    by (simp add: l1 [symmetric])
  show ?thesis
    unfolding res using keep repl [of f2] repl [of f1] id2 restore
    by (cases r) auto
qed

lemma ids_ok_run:
  "ids_ok s \<Longrightarrow> unat (nextID s) + length ops < 2 ^ 64 - 1 \<Longrightarrow>
     ids_ok (fst (run ops (s, w)))"
proof (induction ops arbitrary: s w)
  case Nil
  then show ?case by (simp add: run_def)
next
  case (Cons a ops)
  from Cons.prems have n: "unat (nextID s) < 2 ^ 64 - 1" by simp
  obtain s1 w1 where st: "run_op (s, w) a = (s1, w1)"
    by (metis prod.collapse)
  have "ids_ok s1 \<and> unat (nextID s1) \<le> unat (nextID s) + 1"
  proof (cases a)
    case (OpAdd e nf)
    with st ids_ok_Add [OF Cons.prems(1) n, of e nf w] show ?thesis
      by (metis fst_conv run_op.simps(1))
  next
    case (OpDelete url)
    with st ids_ok_Delete [OF Cons.prems(1), of url w] show ?thesis
      by (metis fst_conv run_op.simps(2) le_add1)
  next
    case (OpModify e url enabled name newURL)
    with st ids_ok_Modify [OF Cons.prems(1) n, of e url enabled name newURL w] show ?thesis
      by (metis fst_conv run_op.simps(3))
  qed
  with Cons.prems have "ids_ok s1" "unat (nextID s1) + length ops < 2 ^ 64 - 1"
    by simp_all
  from Cons.IH [OF this] st show ?case
    by (simp add: run_def)
qed

lemmas op_defs = Add_def Delete_def Modify_def Modify_at_def Modify_fields_def Modify_plan_def
  parseFilter_def nextFilterID_def lock_def unlock_def ex_stg_def ex_url_def

section \<open>Claims about Modify and the registry\<close>

text \<open>
  C3. When \<open>Modify\<close> finds the URL, the change needs a download and the download
  fails, \<open>Modify\<close> returns that error with no status bit and the zero descriptor, and
  the registry (so the URL, ID, rule count and \<open>LastModified\<close> of the descriptor) and
  the files are as before the call. More generally, whenever \<open>Modify\<close> returns an error
  the registry and the files are unchanged.
\<close>

theorem Modify_rollback:
  "(find_URL url (conf_List s) = Some i
      \<and> Modify_fields (conf_List s ! i) enabled name newURL = (f, st)
      \<and> Modify_plan e st enabled f s (lock w) = (f1, True, s1)
      \<and> downloadFilter (FilterDir s1) e (f1\<lparr>LastModified := [], RuleCount := 0\<rparr>) (lock w)
           = (Some er, f2, w1)
    \<longrightarrow> fst (Modify e url enabled name newURL s w) = ({}, Filter0, Some er)
        \<and> conf_List (fst (snd (Modify e url enabled name newURL s w))) = conf_List s
        \<and> files (snd (snd (Modify e url enabled name newURL s w))) = files w)
   \<and> (Modify e url enabled name newURL s w = ((st', prev, Some er'), s', w')
    \<longrightarrow> st' = {} \<and> prev = Filter0 \<and> conf_List s' = conf_List s \<and> files w' = files w)"
proof -
  have "fst (Modify e url enabled name newURL s w) = ({}, Filter0, Some er)
        \<and> conf_List (fst (snd (Modify e url enabled name newURL s w))) = conf_List s
        \<and> files (snd (snd (Modify e url enabled name newURL s w))) = files w"
    if a: "find_URL url (conf_List s) = Some i"
      "Modify_fields (conf_List s ! i) enabled name newURL = (f, st)"
      "Modify_plan e st enabled f s (lock w) = (f1, True, s1)"
      "downloadFilter (FilterDir s1) e (f1\<lparr>LastModified := [], RuleCount := 0\<rparr>) (lock w)
           = (Some er, f2, w1)"
  proof -
    note m = Modify_failure [OF a]
    from Modify_error [OF m] m show ?thesis by simp
  qed
  moreover have "st' = {} \<and> prev = Filter0 \<and> conf_List s' = conf_List s \<and> files w' = files w"
    if "Modify e url enabled name newURL s w = ((st', prev, Some er'), s', w')"
    using Modify_error [OF that] .
  ultimately show ?thesis by blast
qed

theorem Modify_rollback_witness:
  "Modify (ex_env (Response 500 [] [])) ex_url True ''c'' ex_url_b (ex_stg [ex_old]) ex_world
     = (({}, Filter0, Some (ErrHTTPStatus 500)), (ex_stg [ex_old])\<lparr>nextID := 7\<rparr>,
        ex_world\<lparr>trace := [Lock, HTTPGet \<lparr>req_url = ex_url_b, If_Modified_Since = None\<rparr>, Unlock]\<rparr>)
   \<and> conf_List ((ex_stg [ex_old])\<lparr>nextID := 7\<rparr>) = [ex_old]
   \<and> find_URL ex_url (conf_List (ex_stg [ex_old])) = Some 0
   \<and> Modify_fields (conf_List (ex_stg [ex_old]) ! 0) True ''c'' ex_url_b
       = (ex_old\<lparr>Name := ''c'', URL := ex_url_b\<rparr>, {StatusChangedURL})
   \<and> Modify_plan (ex_env (Response 500 [] [])) {StatusChangedURL} True (ex_old\<lparr>Name := ''c'', URL := ex_url_b\<rparr>) (ex_stg [ex_old])
         (lock ex_world)
       = (ex_old\<lparr>Name := ''c'', URL := ex_url_b, ID := 7\<rparr>, True, (ex_stg [ex_old])\<lparr>nextID := 7\<rparr>)
   \<and> fst (downloadFilter ''/filters'' (ex_env (Response 500 [] []))
         (ex_old\<lparr>Name := ''c'', URL := ex_url_b, ID := 7, LastModified := [], RuleCount := 0\<rparr>)
         (lock ex_world)) = Some (ErrHTTPStatus 500)"
proof -
  have h: "Modify (ex_env (Response 500 [] [])) ex_url True ''c'' ex_url_b (ex_stg [ex_old]) ex_world
     = (({}, Filter0, Some (ErrHTTPStatus 500)), (ex_stg [ex_old])\<lparr>nextID := 7\<rparr>,
        ex_world\<lparr>trace := [Lock, HTTPGet \<lparr>req_url = ex_url_b, If_Modified_Since = None\<rparr>, Unlock]\<rparr>)"
    by (simp add: op_defs ex_url_b_def ex_old_def eval_defs)
  have a: "find_URL ex_url (conf_List (ex_stg [ex_old])) = Some 0"
    by (simp add: ex_stg_def ex_old_def ex_filter_def)
  have b: "Modify_fields (conf_List (ex_stg [ex_old]) ! 0) True ''c'' ex_url_b
       = (ex_old\<lparr>Name := ''c'', URL := ex_url_b\<rparr>, {StatusChangedURL})"
    by (simp add: Modify_fields_def ex_stg_def ex_old_def ex_filter_def ex_url_def ex_url_b_def)
  have c: "Modify_plan (ex_env (Response 500 [] [])) {StatusChangedURL} True (ex_old\<lparr>Name := ''c'', URL := ex_url_b\<rparr>) (ex_stg [ex_old])
         (lock ex_world)
       = (ex_old\<lparr>Name := ''c'', URL := ex_url_b, ID := 7\<rparr>, True, (ex_stg [ex_old])\<lparr>nextID := 7\<rparr>)"
    by (simp add: Modify_plan_def nextFilterID_def ex_stg_def)
  have d: "downloadFilter (FilterDir ((ex_stg [ex_old])\<lparr>nextID := 7\<rparr>)) (ex_env (Response 500 [] []))
         (ex_old\<lparr>Name := ''c'', URL := ex_url_b, ID := 7\<rparr>\<lparr>LastModified := [], RuleCount := 0\<rparr>)
         (lock ex_world)
       = (Some (ErrHTTPStatus 500),
          ex_old\<lparr>Name := ''c'', URL := ex_url_b, ID := 7\<rparr>\<lparr>LastModified := [], RuleCount := 0\<rparr>,
          ex_world\<lparr>trace := [Lock, HTTPGet \<lparr>req_url = ex_url_b, If_Modified_Since = None\<rparr>]\<rparr>)"
    by (simp add: lock_def ex_stg_def ex_url_b_def ex_old_def eval_defs)
  from Modify_rollback [of ex_url "ex_stg [ex_old]" 0 True "''c''" ex_url_b
      "ex_old\<lparr>Name := ''c'', URL := ex_url_b\<rparr>" "{StatusChangedURL}"
      "ex_env (Response 500 [] [])" ex_world
      "ex_old\<lparr>Name := ''c'', URL := ex_url_b, ID := 7\<rparr>" "(ex_stg [ex_old])\<lparr>nextID := 7\<rparr>"
      "ErrHTTPStatus 500"]
    h a b c d
  show ?thesis by (simp add: ex_stg_def)
qed

text \<open>
  C9, as the code has it. With the URL unchanged and the filter switched on: when the
  cache file can be opened and every read of it succeeds, the rule count is the
  number of rule lines of that file and nothing is fetched; when the file can be
  opened but a read fails, the error of \<open>parseFilter\<close> is dropped, the rule count keeps
  its stored value, nothing is fetched and \<open>Modify\<close> succeeds; when the file cannot be
  opened, \<open>downloadFilter\<close> runs on the descriptor with \<open>LastModified\<close> and \<open>RuleCount\<close>
  cleared. When the filter is enabled already, nothing is fetched and nothing is
  parsed: the rule count keeps its stored value.
\<close>

theorem Modify_url_unchanged:
  assumes "find_URL url (conf_List s) = Some i"
    and "Modify e url True name url s w = (res, s', w')"
  shows "(\<not> Enabled (conf_List s ! i)
          \<and> files w (filePath (FilterDir s) (conf_List s ! i)) = Some fl \<longrightarrow>
            res = ({StatusChangedEnabled}, conf_List s ! i, None)
            \<and> conf_List s' = (conf_List s)
                 [i := (if Read_err e (filePath (FilterDir s) (conf_List s ! i)) = None
                        then (conf_List s ! i)\<lparr>Name := name, Enabled := True,
                                RuleCount := of_nat (spec_ruleCount (content fl))\<rparr>
                        else (conf_List s ! i)\<lparr>Name := name, Enabled := True\<rparr>)]
            \<and> trace w' = trace w @ [Lock, Unlock] \<and> files w' = files w \<and> nextID s' = nextID s)
     \<and> (\<not> Enabled (conf_List s ! i)
          \<and> files w (filePath (FilterDir s) (conf_List s ! i)) = None \<longrightarrow>
            (res, s', w') =
              (case downloadFilter (FilterDir s) e
                      ((conf_List s ! i)\<lparr>Name := name, Enabled := True, LastModified := [],
                         RuleCount := 0\<rparr>) (lock w) of
                 (Some er, f2, w1) \<Rightarrow> (({}, Filter0, Some er), s, unlock w1)
               | (None, f2, w1) \<Rightarrow>
                   (({StatusChangedEnabled}, conf_List s ! i, None),
                    s\<lparr>conf_List := (conf_List s)[i := f2]\<rparr>, unlock w1)))
     \<and> (Enabled (conf_List s ! i) \<longrightarrow>
            res = ({}, conf_List s ! i, None)
            \<and> conf_List s' = (conf_List s)[i := (conf_List s ! i)\<lparr>Name := name\<rparr>]
            \<and> RuleCount (conf_List s' ! i) = RuleCount (conf_List s ! i)
            \<and> trace w' = trace w @ [Lock, Unlock] \<and> files w' = files w \<and> nextID s' = nextID s)"
proof -
  from find_URL_Some [OF assms(1)] have i: "i < length (conf_List s)" by simp
  have en: "f\<lparr>Name := name, Enabled := True\<rparr> = f\<lparr>Name := name\<rparr>" if "Enabled f" for f :: Filter
    using that by (cases f) simp
  have "res = ({StatusChangedEnabled}, conf_List s ! i, None)
      \<and> conf_List s' = (conf_List s)
           [i := (if Read_err e (filePath (FilterDir s) (conf_List s ! i)) = None
                  then (conf_List s ! i)\<lparr>Name := name, Enabled := True,
                          RuleCount := of_nat (spec_ruleCount (content fl))\<rparr>
                  else (conf_List s ! i)\<lparr>Name := name, Enabled := True\<rparr>)]
      \<and> trace w' = trace w @ [Lock, Unlock] \<and> files w' = files w \<and> nextID s' = nextID s"
    if "\<not> Enabled (conf_List s ! i)"
      "files w (filePath (FilterDir s) (conf_List s ! i)) = Some fl"
    using assms(2) Modify_reparse [OF assms(1) that, of e name]
    by (auto simp: lock_def unlock_def)
  moreover have "(res, s', w') =
        (case downloadFilter (FilterDir s) e
                ((conf_List s ! i)\<lparr>Name := name, Enabled := True, LastModified := [],
                   RuleCount := 0\<rparr>) (lock w) of
           (Some er, f2, w1) \<Rightarrow> (({}, Filter0, Some er), s, unlock w1)
         | (None, f2, w1) \<Rightarrow>
             (({StatusChangedEnabled}, conf_List s ! i, None),
              s\<lparr>conf_List := (conf_List s)[i := f2]\<rparr>, unlock w1))"
    if "\<not> Enabled (conf_List s ! i)"
      "files w (filePath (FilterDir s) (conf_List s ! i)) = None"
    using assms(2) Modify_redownload [OF assms(1) that, of e name] by simp
  moreover have "res = ({}, conf_List s ! i, None)
      \<and> conf_List s' = (conf_List s)[i := (conf_List s ! i)\<lparr>Name := name\<rparr>]
      \<and> RuleCount (conf_List s' ! i) = RuleCount (conf_List s ! i)
      \<and> trace w' = trace w @ [Lock, Unlock] \<and> files w' = files w \<and> nextID s' = nextID s"
    if "Enabled (conf_List s ! i)"
    using assms(2) i that Modify_no_reparse [OF assms(1), of True e name w]
    by (auto simp: lock_def unlock_def en)
  ultimately show ?thesis by blast
qed

theorem Modify_url_unchanged_witness:
  "find_URL ex_url (conf_List (ex_stg [ex_filter 7 ''a'' ex_url])) = Some 0
   \<and> Modify (ex_env TransportError) ex_url True ''b'' ex_url (ex_stg [ex_filter 7 ''a'' ex_url]) ex_world
      = (({StatusChangedEnabled}, ex_filter 7 ''a'' ex_url, None),
         ex_stg [(ex_filter 7 ''a'' ex_url)\<lparr>Name := ''b'', Enabled := True, RuleCount := 1\<rparr>],
         ex_world\<lparr>trace := [Lock, Unlock]\<rparr>)
   \<and> Modify (ex_env_unreadable TransportError) ex_url True ''b'' ex_url
        (ex_stg [ex_filter 7 ''a'' ex_url]) ex_world
      = (({StatusChangedEnabled}, ex_filter 7 ''a'' ex_url, None),
         ex_stg [(ex_filter 7 ''a'' ex_url)\<lparr>Name := ''b'', Enabled := True\<rparr>],
         ex_world\<lparr>trace := [Lock, Unlock]\<rparr>)
   \<and> \<not> Enabled (conf_List (ex_stg [ex_filter 7 ''a'' ex_url]) ! 0)
   \<and> files ex_world (filePath (FilterDir (ex_stg [ex_filter 7 ''a'' ex_url]))
         (conf_List (ex_stg [ex_filter 7 ''a'' ex_url]) ! 0)) = Some \<lparr>content = ''old^'', mtime = 5\<rparr>
   \<and> Read_err (ex_env TransportError) ''/filters/7.txt'' = None
   \<and> Read_err (ex_env_unreadable TransportError) ''/filters/7.txt'' = Some 0
   \<and> spec_ruleCount ''old^'' = 1"
proof -
  have f: "find_URL ex_url (conf_List (ex_stg [ex_filter 7 ''a'' ex_url])) = Some 0"
    by (simp add: ex_stg_def ex_filter_def ex_url_def)
  have m: "Modify (ex_env TransportError) ex_url True ''b'' ex_url (ex_stg [ex_filter 7 ''a'' ex_url]) ex_world
      = (({StatusChangedEnabled}, ex_filter 7 ''a'' ex_url, None),
         ex_stg [(ex_filter 7 ''a'' ex_url)\<lparr>Name := ''b'', Enabled := True, RuleCount := 1\<rparr>],
         ex_world\<lparr>trace := [Lock, Unlock]\<rparr>)"
    by (simp add: Modify_def Modify_at_def Modify_fields_def Modify_plan_def parseFilter_def
        lock_def unlock_def ex_stg_def ex_url_def eval_defs)
  have m2: "Modify (ex_env_unreadable TransportError) ex_url True ''b'' ex_url
        (ex_stg [ex_filter 7 ''a'' ex_url]) ex_world
      = (({StatusChangedEnabled}, ex_filter 7 ''a'' ex_url, None),
         ex_stg [(ex_filter 7 ''a'' ex_url)\<lparr>Name := ''b'', Enabled := True\<rparr>],
         ex_world\<lparr>trace := [Lock, Unlock]\<rparr>)"
    by (simp add: Modify_def Modify_at_def Modify_fields_def Modify_plan_def parseFilter_def
        lock_def unlock_def ex_stg_def ex_url_def ex_env_unreadable_def eval_defs)
  have d: "\<not> Enabled (conf_List (ex_stg [ex_filter 7 ''a'' ex_url]) ! 0)"
    by (simp add: ex_stg_def ex_filter_def Filter0_def)
  have c: "files ex_world (filePath (FilterDir (ex_stg [ex_filter 7 ''a'' ex_url]))
         (conf_List (ex_stg [ex_filter 7 ''a'' ex_url]) ! 0)) = Some \<lparr>content = ''old^'', mtime = 5\<rparr>"
    by (simp add: ex_stg_def eval_defs)
  have r: "Read_err (ex_env TransportError) ''/filters/7.txt'' = None"
    "Read_err (ex_env_unreadable TransportError) ''/filters/7.txt'' = Some 0"
    by (simp_all add: ex_env_def ex_env_unreadable_def)
  have p: "spec_ruleCount ''old^'' = 1"
    by (simp add: spec_ruleCount_def spec_counted_def text_defs)
  from Modify_url_unchanged [OF f m, of "\<lparr>content = ''old^'', mtime = 5\<rparr>"]
    Modify_url_unchanged [OF f m2, of "\<lparr>content = ''old^'', mtime = 5\<rparr>"] f m m2 d c r p
  show ?thesis by blast
qed

text \<open>
  The claim C9 as stated fails in two places. For an enabled filter whose stored rule
  count is 0 and whose cache file holds one rule, \<open>Modify\<close> with \<open>enabled = true\<close> and
  the same URL leaves the rule count at 0. And for a disabled filter whose cache file
  opens but cannot be read, \<open>Modify\<close> with \<open>enabled = true\<close> succeeds without a request
  to the server and leaves the rule count at 0.
\<close>

theorem Modify_enabled_unchanged_counterexample:
  "find_URL ex_url (conf_List (ex_stg [(ex_filter 7 ''a'' ex_url)\<lparr>Enabled := True\<rparr>])) = Some 0
   \<and> Enabled (conf_List (ex_stg [(ex_filter 7 ''a'' ex_url)\<lparr>Enabled := True\<rparr>]) ! 0)
   \<and> files ex_world (filePath ''/filters'' ((ex_filter 7 ''a'' ex_url)\<lparr>Enabled := True\<rparr>))
       = Some \<lparr>content = ''old^'', mtime = 5\<rparr>
   \<and> parseFilter ((ex_filter 7 ''a'' ex_url)\<lparr>Enabled := True\<rparr>) (file_reads 4096 None ''old^'')
       = (None, (ex_filter 7 ''a'' ex_url)\<lparr>Enabled := True, RuleCount := 1\<rparr>)
   \<and> RuleCount (conf_List (fst (snd (Modify (ex_env TransportError) ex_url True ''a'' ex_url
        (ex_stg [(ex_filter 7 ''a'' ex_url)\<lparr>Enabled := True\<rparr>]) ex_world))) ! 0) = 0
   \<and> trace (snd (snd (Modify (ex_env TransportError) ex_url True ''a'' ex_url
        (ex_stg [(ex_filter 7 ''a'' ex_url)\<lparr>Enabled := True\<rparr>]) ex_world))) = [Lock, Unlock]
   \<and> \<not> Enabled (ex_filter 7 ''a'' ex_url)
   \<and> parseFilter ((ex_filter 7 ''a'' ex_url)\<lparr>Enabled := True\<rparr>)
        (file_reads 4096 (Read_err (ex_env_unreadable TransportError) ''/filters/7.txt'') ''old^'')
       = (Some ErrRead, (ex_filter 7 ''a'' ex_url)\<lparr>Enabled := True\<rparr>)
   \<and> Modify (ex_env_unreadable TransportError) ex_url True ''a'' ex_url
        (ex_stg [ex_filter 7 ''a'' ex_url]) ex_world
      = (({StatusChangedEnabled}, ex_filter 7 ''a'' ex_url, None),
         ex_stg [(ex_filter 7 ''a'' ex_url)\<lparr>Enabled := True\<rparr>],
         ex_world\<lparr>trace := [Lock, Unlock]\<rparr>)
   \<and> RuleCount ((ex_filter 7 ''a'' ex_url)\<lparr>Enabled := True\<rparr>) = 0"
  by (simp add: Modify_def Modify_at_def Modify_fields_def Modify_plan_def parseFilter_def
        lock_def unlock_def ex_stg_def ex_url_def ex_env_unreadable_def eval_defs)

text \<open>
  C2 fails on the code: \<open>Modify\<close> checks neither the new name nor the new URL against
  the other descriptors. Two calls of \<open>Add\<close> and one of \<open>Modify\<close>, starting from the empty
  registry, give two descriptors with the same name and the same URL.
\<close>

theorem Modify_duplicates_name_and_url:
  "map (\<lambda>f. (Name f, URL f))
     (conf_List (fst (run
        [OpAdd (ex_env (Response 200 [] [Data ''||a^''])) (ex_filter 0 ''a'' ex_url),
         OpAdd (ex_env (Response 200 [] [Data ''||b^''])) (ex_filter 0 ''b'' ex_url_b),
         OpModify (ex_env (Response 200 [] [Data ''||a^''])) ex_url_b True ''a'' ex_url]
        (ex_stg [], ex_world))))
   = [(''a'', ex_url), (''a'', ex_url)]"
  by (simp add: run_def op_defs ex_url_b_def eval_defs)

section \<open>The steps of applyUpdate and updateAll\<close>

lemma os_Chtimes_frame:
  "trace (snd (os_Chtimes ok p t w)) = trace w"
  "open_fds (snd (os_Chtimes ok p t w)) = open_fds w"
  "map_option content (files (snd (os_Chtimes ok p t w)) q) = map_option content (files w q)"
  by (auto simp: os_Chtimes_def split: option.splits)

lemma os_Chtimes_mtime:
  "files w p = Some fl \<Longrightarrow> ok \<Longrightarrow>
     files (snd (os_Chtimes ok p t w)) p = Some (fl\<lparr>mtime := t\<rparr>)"
  by (simp add: os_Chtimes_def)

lemma os_Rename_frame:
  "trace (snd (os_Rename ok old new w)) = trace w"
  "open_fds (snd (os_Rename ok old new w)) = open_fds w"
  by (auto simp: os_Rename_def split: option.splits)

lemma os_Rename_effect:
  "files w old = Some fl \<Longrightarrow> ok \<Longrightarrow>
     files (snd (os_Rename ok old new w)) new = Some fl
     \<and> (old \<noteq> new \<longrightarrow> files (snd (os_Rename ok old new w)) old = None)
     \<and> (\<forall>q. q \<noteq> old \<and> q \<noteq> new \<longrightarrow> files (snd (os_Rename ok old new w)) q = files w q)"
  by (auto simp: os_Rename_def)

lemma os_Remove_frame:
  "trace (os_Remove p w) = trace w" "open_fds (os_Remove p w) = open_fds w"
  "files (os_Remove p w) p = None" "q \<noteq> p \<Longrightarrow> files (os_Remove p w) q = files w q"
  by (simp_all add: os_Remove_def)

lemma applyUpdate_scan_frame:
  "applyUpdate_scan e dir uf l w = (found, l', w') \<Longrightarrow>
     length l' = length l \<and> map ID l' = map ID l \<and> map Name l' = map Name l
     \<and> map URL l' = map URL l \<and> map Enabled l' = map Enabled l
     \<and> trace w' = trace w \<and> open_fds w' = open_fds w
     \<and> (found \<longleftrightarrow> URL uf \<in> URL ` set l)"
proof (induction l arbitrary: w found l' w')
  case Nil
  then show ?case by simp
next
  case (Cons f fs)
  show ?case
  proof (cases "URL uf = URL f")
    case False
    obtain fd fs' w1 where r: "applyUpdate_scan e dir uf fs w = (fd, fs', w1)"
      by (metis prod_cases3)
    from Cons.IH [OF r] Cons.prems False r show ?thesis
      by auto
  next
    case True
    show ?thesis
    proof (cases "length (Path uf) = 0")
      case False
      with True Cons.prems show ?thesis
        by (auto simp: Let_def os_Rename_frame)
    next
      case p: True
      let ?w1 = "snd (os_Chtimes (Chtimes_ok e (filePath dir f)) (filePath dir f) (LastUpdated uf) w)"
      obtain fd fs' w1 where r: "applyUpdate_scan e dir uf fs ?w1 = (fd, fs', w1)"
        by (metis prod_cases3)
      from Cons.IH [OF r] Cons.prems True p r show ?thesis
        by (auto simp: Let_def os_Chtimes_frame)
    qed
  qed
qed

lemma applyUpdate_scan_notfound:
  "URL uf \<notin> URL ` set l \<Longrightarrow> applyUpdate_scan e dir uf l w = (False, l, w)"
  by (induction l) auto

lemma applyUpdate_scan_staged:
  "find_URL (URL uf) l = Some i \<Longrightarrow> Path uf \<noteq> [] \<Longrightarrow>
     applyUpdate_scan e dir uf l w =
       (True, l[i := (l ! i)\<lparr>LastUpdated := LastUpdated uf, RuleCount := RuleCount uf\<rparr>],
        snd (os_Rename (Rename_ok e (Path uf) (filePath dir (l ! i))) (Path uf)
               (filePath dir (l ! i)) w))"
proof (induction l arbitrary: i)
  case Nil
  then show ?case by simp
next
  case (Cons f fs)
  show ?case
  proof (cases "URL f = URL uf")
    case True
    with Cons.prems show ?thesis
      by (simp add: Let_def)
  next
    case False
    with Cons.prems obtain k where k: "find_URL (URL uf) fs = Some k" "i = Suc k"
      by auto
    from Cons.IH [OF k(1) Cons.prems(2)] False k(2) show ?thesis
      by auto
  qed
qed

lemma applyUpdate_scan_touch:
  "Path uf = [] \<Longrightarrow>
     applyUpdate_scan e dir uf l w =
       (URL uf \<in> URL ` set l,
        map (\<lambda>f. if URL f = URL uf then f\<lparr>LastUpdated := LastUpdated uf\<rparr> else f) l,
        foldl (spec_touch e dir (LastUpdated uf)) w (filter (\<lambda>f. URL f = URL uf) l))"
  by (induction l arbitrary: w) (auto simp: Let_def spec_touch_def)

lemma applyUpdate_scan_spec:
  "(case applyUpdate_scan e dir uf l w of
      (found, l', w') \<Rightarrow> (l', if \<not> found then os_Remove (filePath dir uf) w' else w'))
   = spec_apply_entry e dir (l, w) uf"
proof (cases "find_URL (URL uf) l")
  case None
  then have "URL uf \<notin> URL ` set l" by (simp add: find_URL_None)
  with None show ?thesis
    by (simp add: applyUpdate_scan_notfound spec_apply_entry_def)
next
  case (Some i)
  then have "URL uf \<in> URL ` set l"
    using find_URL_None [of "URL uf" l] by auto
  with Some show ?thesis
    by (cases "Path uf = []")
       (simp_all add: applyUpdate_scan_touch applyUpdate_scan_staged spec_apply_entry_def)
qed

lemma applyUpdate_loop_frame:
  "applyUpdate_loop e dir ufs l w = (l', w') \<Longrightarrow>
     length l' = length l \<and> map ID l' = map ID l \<and> map Name l' = map Name l
     \<and> map URL l' = map URL l \<and> map Enabled l' = map Enabled l
     \<and> trace w' = trace w \<and> open_fds w' = open_fds w"
proof (induction ufs arbitrary: l w)
  case Nil
  then show ?case by simp
next
  case (Cons uf ufs)
  obtain fd l1 w1 where r: "applyUpdate_scan e dir uf l w = (fd, l1, w1)"
    by (metis prod_cases3)
  let ?w2 = "if \<not> fd then os_Remove (filePath dir uf) w1 else w1"
  from Cons.prems r have "applyUpdate_loop e dir ufs l1 ?w2 = (l', w')"
    by simp
  from Cons.IH [OF this] applyUpdate_scan_frame [OF r] show ?case
    by (auto simp: os_Remove_frame)
qed

lemma applyUpdate_loop_spec:
  "applyUpdate_loop e dir ufs l w = foldl (spec_apply_entry e dir) (l, w) ufs"
proof (induction ufs arbitrary: l w)
  case Nil
  then show ?case by simp
next
  case (Cons uf ufs)
  obtain fd l1 w1 where r: "applyUpdate_scan e dir uf l w = (fd, l1, w1)"
    by (metis prod_cases3)
  with applyUpdate_scan_spec [where e = e and dir = dir and uf = uf and l = l and w = w]
  have "spec_apply_entry e dir (l, w) uf
      = (l1, if \<not> fd then os_Remove (filePath dir uf) w1 else w1)"
    by simp
  with r Cons.IH show ?case by simp
qed

lemma files_spec_touch:
  "files (spec_touch e dir t w f) q =
     (if q = filePath dir f \<and> Chtimes_ok e q
      then map_option (\<lambda>fl. fl\<lparr>mtime := t\<rparr>) (files w q) else files w q)"
  by (auto simp: spec_touch_def os_Chtimes_def split: option.splits)

lemma files_foldl_spec_touch:
  "files (foldl (spec_touch e dir t) w fs) q =
     (if q \<in> filePath dir ` set fs \<and> Chtimes_ok e q
      then map_option (\<lambda>fl. fl\<lparr>mtime := t\<rparr>) (files w q) else files w q)"
proof (induction fs arbitrary: w)
  case Nil
  then show ?case by simp
next
  case (Cons f fs)
  show ?case
    by (cases "files w q") (auto simp: Cons.IH files_spec_touch)
qed

lemma downloadFilter_staged_path:
  assumes "downloadFilter dir e f w = (None, uf, w1)"
  shows "Path uf = [] \<or> Path uf = filePath dir uf"
proof -
  from downloadFilter_cases [OF assms] have "ID uf = ID f"
    and "Path uf = [] \<or> Path uf = filePath dir f"
    by auto
  then show ?thesis by (simp add: filePath_def)
qed

lemma applyUpdate_fold:
  "applyUpdate e s w =
     (if updated s = [] then (s, w)
      else case foldl (spec_apply_entry e (FilterDir s))
                  (conf_List s, lock (notifyUsers EventBeforeUpdate s w)) (updated s) of
             (l, w') \<Rightarrow>
               (s\<lparr>conf_List := l, updated := []\<rparr>,
                notifyUsers EventAfterUpdate (s\<lparr>conf_List := l, updated := []\<rparr>) (unlock w')))"
  by (simp add: applyUpdate_def applyUpdate_loop_spec Let_def)

lemma applyUpdate_frame:
  "map ID (conf_List (fst (applyUpdate e s w))) = map ID (conf_List s)
   \<and> map Name (conf_List (fst (applyUpdate e s w))) = map Name (conf_List s)
   \<and> map URL (conf_List (fst (applyUpdate e s w))) = map URL (conf_List s)
   \<and> map Enabled (conf_List (fst (applyUpdate e s w))) = map Enabled (conf_List s)"
proof (cases "updated s = []")
  case True
  then show ?thesis by (simp add: applyUpdate_def)
next
  case False
  obtain l w2 where
    r: "applyUpdate_loop e (FilterDir s) (updated s) (conf_List s)
          (lock (notifyUsers EventBeforeUpdate s w)) = (l, w2)"
    by (metis prod.collapse)
  from applyUpdate_loop_frame [OF r] False r show ?thesis
    by (simp add: applyUpdate_def Let_def)
qed

lemma trace_notifyUsers [simp]:
  "trace (notifyUsers ev s w) = trace w @ map (\<lambda>u. Notify u ev) (Users s)"
  by (simp add: notifyUsers_def)

lemma Duration_hours_0 [simp]: "Duration_hours 0 = 0"
  by (simp add: Duration_hours_def)

lemma getNextToUpdate_Some:
  "getNextToUpdate t h l = (Some i, l') \<Longrightarrow>
     i < length l \<and> Enabled (l ! i) \<and> Unix (nextUpdate (l ! i)) \<le> Unix t
     \<and> (\<forall>j < i. \<not> (Enabled (l ! j) \<and> Unix (nextUpdate (l ! j)) \<le> Unix t))
     \<and> l' = l[i := (l ! i)\<lparr>nextUpdate := t + Duration_hours h\<rparr>]"
proof (induction l arbitrary: i l')
  case Nil
  then show ?case by simp
next
  case (Cons f fs)
  show ?case
  proof (cases "Enabled f \<and> Unix (nextUpdate f) \<le> Unix t")
    case True
    with Cons.prems show ?thesis by auto
  next
    case False
    obtain r fs' where g: "getNextToUpdate t h fs = (r, fs')"
      by (metis prod.collapse)
    with Cons.prems False obtain k where k: "r = Some k" "i = Suc k" "l' = f # fs'"
      by auto
    from Cons.IH [OF g [unfolded k(1)]] False k show ?thesis
      by (auto simp: nth_Cons split: nat.splits)
  qed
qed

lemma getNextToUpdate_None:
  "getNextToUpdate t h l = (None, l') \<Longrightarrow>
     l' = l \<and> (\<forall>f \<in> set l. \<not> (Enabled f \<and> Unix (nextUpdate f) \<le> Unix t))"
proof (induction l arbitrary: l')
  case Nil
  then show ?case by simp
next
  case (Cons f fs)
  obtain r fs' where g: "getNextToUpdate t h fs = (r, fs')"
    by (metis prod.collapse)
  from Cons.prems g have "r = None" "\<not> (Enabled f \<and> Unix (nextUpdate f) \<le> Unix t)" "l' = f # fs'"
    by (auto split: if_splits)
  with Cons.IH [of fs'] g show ?case by auto
qed

lemma updateAll_failure:
  assumes pick: "getNextToUpdate (pick_now e) (UpdateIntervalHours s) (conf_List s) = (Some i, l)"
    and dl: "downloadFilter (FilterDir s) e ((l ! i)\<lparr>ID := nextID s + 1\<rparr>) (unlock (lock w))
               = (Some er, uf, w1)"
  shows "\<exists>s2 w2. updateAll (e # es) s w = updateAll es s2 w2
     \<and> updated s2 = updated s \<and> files w2 = files w
     \<and> length (conf_List s2) = length (conf_List s)
     \<and> (\<forall>j. j \<noteq> i \<longrightarrow> conf_List s2 ! j = conf_List s ! j)
     \<and> (er = ErrTransport \<longrightarrow>
          conf_List s2 ! i = (conf_List s ! i)\<lparr>nextUpdate := retry_now e + 10 * Second\<rparr>)
     \<and> (er \<noteq> ErrTransport \<and> \<not> networkError (conf_List s ! i) \<longrightarrow>
          conf_List s2 ! i
            = (conf_List s ! i)\<lparr>nextUpdate := pick_now e + Duration_hours (UpdateIntervalHours s)\<rparr>)"
proof -
  note g = getNextToUpdate_Some [OF pick]
  from g have i: "i < length (conf_List s)" and l: "l = (conf_List s)
      [i := (conf_List s ! i)\<lparr>nextUpdate := pick_now e + Duration_hours (UpdateIntervalHours s)\<rparr>]"
    by simp_all
  from l i have li: "l ! i
      = (conf_List s ! i)\<lparr>nextUpdate := pick_now e + Duration_hours (UpdateIntervalHours s)\<rparr>"
    by simp
  note c = downloadFilter_cases [OF dl]
  from c have fw: "files w1 = files w"
    by (simp add: lock_def unlock_def)
  from c li have ne: "networkError uf = (networkError (conf_List s ! i) \<or> er = ErrTransport)"
    by simp
  show ?thesis
  proof (cases "networkError uf")
    case True
    let ?s2 = "s\<lparr>conf_List := l, nextID := nextID s + 1,
        conf_List := l[i := (l ! i)\<lparr>nextUpdate := retry_now e + 10 * Second\<rparr>]\<rparr>"
    have "updateAll (e # es) s w = updateAll es ?s2 (unlock (lock w1))"
      using pick dl True by (simp add: nextFilterID_def)
    moreover have "conf_List ?s2 ! i = (conf_List s ! i)\<lparr>nextUpdate := retry_now e + 10 * Second\<rparr>"
      using i l by simp
    moreover have "\<forall>j. j \<noteq> i \<longrightarrow> conf_List ?s2 ! j = conf_List s ! j"
      using l by simp
    moreover have "length (conf_List ?s2) = length (conf_List s)"
      using l by simp
    ultimately show ?thesis
      using fw True ne
      by (intro exI [of _ ?s2] exI [of _ "unlock (lock w1)"])
         (auto simp add: lock_def unlock_def simp del: updateAll.simps)
  next
    case False
    let ?s2 = "s\<lparr>conf_List := l, nextID := nextID s + 1\<rparr>"
    have "updateAll (e # es) s w = updateAll es ?s2 w1"
      using pick dl False by (simp add: nextFilterID_def)
    moreover have "\<forall>j. j \<noteq> i \<longrightarrow> conf_List ?s2 ! j = conf_List s ! j"
      using l by simp
    moreover have "length (conf_List ?s2) = length (conf_List s)"
      using l by simp
    ultimately show ?thesis
      using fw False ne li
      by (intro exI [of _ ?s2] exI [of _ w1]) (auto simp del: updateAll.simps)
  qed
qed

lemma updateAll_nothing_due:
  assumes "\<forall>f \<in> set (conf_List s). \<not> (Enabled f \<and> Unix (nextUpdate f) \<le> Unix (pick_now e))"
  shows "updateAll (e # es) s w = (True, applyUpdate e s (unlock (lock w)))"
proof -
  obtain r l where g: "getNextToUpdate (pick_now e) (UpdateIntervalHours s) (conf_List s) = (r, l)"
    by (metis prod.collapse)
  have "r = None"
  proof (cases r)
    case (Some i)
    from getNextToUpdate_Some [OF g [unfolded Some]] assms show ?thesis
      by (metis nth_mem)
  qed simp
  with g show ?thesis by simp
qed

lemma updateAll_something_due:
  assumes "\<exists>f \<in> set (conf_List s). Enabled f \<and> Unix (nextUpdate f) \<le> Unix (pick_now e)"
  shows "\<exists>s2 w2. updateAll (e # es) s w = updateAll es s2 w2"
proof -
  obtain r l where g: "getNextToUpdate (pick_now e) (UpdateIntervalHours s) (conf_List s) = (r, l)"
    by (metis prod.collapse)
  have "r \<noteq> None"
    using getNextToUpdate_None [of "pick_now e" "UpdateIntervalHours s" "conf_List s" l] g assms
    by auto
  then obtain i where "r = Some i" by auto
  with g show ?thesis
    by (auto simp: nextFilterID_def split: prod.splits option.splits)
qed

lemmas time_defs = Unix_def Second_def Hour_def zeroTime_def Duration_hours_def

lemmas pass_defs = ex_due_def ex_stg_def ex_url_def ex_url_b_def lock_def unlock_def
  nextFilterID_def applyUpdate_def notifyUsers_def os_Chtimes_def time_defs

text \<open>With the interval of 24 hours the pass goes on to the second filter and ends.\<close>

lemma updateAll_example_pass:
  "(case updateAll [ex_env (Response 500 [] []), ex_env (Response 200 [] [Data ''||b^'']),
                    ex_env TransportError] (ex_stg ex_due) ex_world of
      (returned, s, w) \<Rightarrow>
        (returned, map RuleCount (conf_List s), map ID (conf_List s), updated s, nextID s,
         map_option content (files w ''/filters/4.txt''), trace w))
     = (True, [0, 1], [3, 4], [], 8, Some ''||b^'',
        [Lock, Unlock, HTTPGet \<lparr>req_url = ex_url, If_Modified_Since = None\<rparr>,
         Lock, Unlock, HTTPGet \<lparr>req_url = ex_url_b, If_Modified_Since = None\<rparr>,
         Lock, Unlock, Notify 1 EventBeforeUpdate, Notify 2 EventBeforeUpdate, Lock, Unlock,
         Notify 1 EventAfterUpdate, Notify 2 EventAfterUpdate])"
  by (simp add: pass_defs eval_defs)

text \<open>
  With the interval zero, a first descriptor that is enabled and due, and a server that
  answers 500, the pass does not return, however many iterations it runs.
\<close>

lemma request_for_nextUpdate [simp]:
  "request_for (f\<lparr>nextUpdate := t\<rparr>) = request_for f"
  by (simp add: request_for_def)

lemma updateAll_zero_interval_never_returns:
  assumes "UpdateIntervalHours s = 0" and "conf_List s = f # fs"
    and "Enabled f" and "\<not> networkError f" and "\<not> IsAbs (URL f)"
    and "Unix (nextUpdate f) \<le> Unix t"
    and "\<forall>e \<in> set es. pick_now e = t \<and> TempFile e = Some tmp \<and> NewRequest_ok e (URL f)
            \<and> (\<exists>lm b. Do e (request_for f) = Response 500 lm b)"
    and "files w tmp = None"
  shows "fst (updateAll es s w) = False"
  using assms
proof (induction es arbitrary: s w f)
  case Nil
  then show ?case by simp
next
  case (Cons e es)
  let ?f1 = "f\<lparr>nextUpdate := t\<rparr>"
  let ?uf = "?f1\<lparr>ID := nextID s + 1\<rparr>"
  let ?w0 = "unlock (lock w)"
  from Cons.prems have e: "pick_now e = t" "TempFile e = Some tmp" "NewRequest_ok e (URL f)"
    and d: "\<exists>lm b. Do e (request_for f) = Response 500 lm b"
    by auto
  from d obtain lm b where d5: "Do e (request_for ?uf) = Response 500 lm b"
    by auto
  have pick: "getNextToUpdate (pick_now e) (UpdateIntervalHours s) (conf_List s)
      = (Some 0, ?f1 # fs)"
    using Cons.prems e by simp
  have fr: "files ?w0 tmp = None"
    using Cons.prems by (simp add: lock_def unlock_def)
  have na: "\<not> IsAbs (URL ?uf)"
    using Cons.prems by simp
  have dl: "downloadFilter (FilterDir s) e ?uf ?w0
      = (Some (ErrHTTPStatus 500), ?uf, ?w0\<lparr>trace := trace ?w0 @ [HTTPGet (request_for ?uf)]\<rparr>)"
    using downloadFilter_http [OF e(2) fr na, of "FilterDir s"] e(3) d5 by simp
  let ?s1 = "s\<lparr>conf_List := ?f1 # fs, nextID := nextID s + 1\<rparr>"
  let ?w1 = "?w0\<lparr>trace := trace ?w0 @ [HTTPGet (request_for ?uf)]\<rparr>"
  have step: "updateAll (e # es) s w = updateAll es ?s1 ?w1"
    using pick dl Cons.prems(4) by (simp add: nextFilterID_def)
  have "fst (updateAll es ?s1 ?w1) = False"
  proof (rule Cons.IH [of ?s1 ?f1])
    show "UpdateIntervalHours ?s1 = 0" using Cons.prems by simp
    show "conf_List ?s1 = ?f1 # fs" by simp
    show "Enabled ?f1" "\<not> networkError ?f1" "\<not> IsAbs (URL ?f1)"
      using Cons.prems by simp_all
    show "Unix (nextUpdate ?f1) \<le> Unix t" by simp
    show "\<forall>e \<in> set es. pick_now e = t \<and> TempFile e = Some tmp \<and> NewRequest_ok e (URL ?f1)
            \<and> (\<exists>lm b. Do e (request_for ?f1) = Response 500 lm b)"
      using Cons.prems(7) by simp
    show "files ?w1 tmp = None"
      using Cons.prems by (simp add: lock_def unlock_def)
  qed
  with step show ?case by simp
qed

section \<open>Claims about the update pass\<close>

text \<open>
  C7. \<open>applyUpdate\<close> with a batch that is not empty calls the observers, takes the
  lock, goes through the entries of the batch in their order and does with each what
  \<open>spec_apply_entry\<close> says, then clears the batch and calls the observers again. For
  an entry \<open>uf\<close>: when no descriptor has its URL, the registry is unchanged and the file
  at \<open>filePath\<close> of the entry, which is where \<open>downloadFilter\<close> staged it, is removed;
  when a descriptor has its URL and the staged path is empty, only \<open>LastUpdated\<close> of
  the descriptors with that URL changes, every file keeps its bytes and only their
  cache files get the new modification time; when the staged path is not empty,
  \<open>LastUpdated\<close> and \<open>RuleCount\<close> of the first descriptor with that URL are set and the
  staged file is renamed over its cache path. The IDs, names, URLs and enabled flags
  of the registry stay as they are.
\<close>

theorem applyUpdate_entries:
  "applyUpdate e s w =
     (if updated s = [] then (s, w)
      else case foldl (spec_apply_entry e (FilterDir s))
                  (conf_List s, lock (notifyUsers EventBeforeUpdate s w)) (updated s) of
             (l, w') \<Rightarrow>
               (s\<lparr>conf_List := l, updated := []\<rparr>,
                notifyUsers EventAfterUpdate (s\<lparr>conf_List := l, updated := []\<rparr>) (unlock w')))
   \<and> (URL uf \<notin> URL ` set l \<longrightarrow>
        spec_apply_entry e dir (l, v) uf = (l, os_Remove (filePath dir uf) v)
        \<and> files (os_Remove (filePath dir uf) v) (filePath dir uf) = None
        \<and> (\<forall>q. q \<noteq> filePath dir uf \<longrightarrow> files (os_Remove (filePath dir uf) v) q = files v q))
   \<and> (downloadFilter dir e f v0 = (None, uf, v1) \<longrightarrow> Path uf = [] \<or> Path uf = filePath dir uf)
   \<and> (URL uf \<in> URL ` set l \<and> Path uf = [] \<and> spec_apply_entry e dir (l, v) uf = (l', v') \<longrightarrow>
        l' = map (\<lambda>f. if URL f = URL uf then f\<lparr>LastUpdated := LastUpdated uf\<rparr> else f) l
        \<and> map RuleCount l' = map RuleCount l
        \<and> (\<forall>q. files v' q =
                 (if q \<in> filePath dir ` {f \<in> set l. URL f = URL uf} \<and> Chtimes_ok e q
                  then map_option (\<lambda>fl. fl\<lparr>mtime := LastUpdated uf\<rparr>) (files v q)
                  else files v q))
        \<and> (\<forall>q. map_option content (files v' q) = map_option content (files v q)))
   \<and> (find_URL (URL uf) l = Some i \<and> Path uf \<noteq> [] \<and> spec_apply_entry e dir (l, v) uf = (l', v')
      \<longrightarrow>
        l' = l[i := (l ! i)\<lparr>LastUpdated := LastUpdated uf, RuleCount := RuleCount uf\<rparr>]
        \<and> (\<forall>fl. files v (Path uf) = Some fl \<and> Rename_ok e (Path uf) (filePath dir (l ! i)) \<longrightarrow>
              files v' (filePath dir (l ! i)) = Some fl
              \<and> (Path uf \<noteq> filePath dir (l ! i) \<longrightarrow> files v' (Path uf) = None)
              \<and> (\<forall>q. q \<noteq> Path uf \<and> q \<noteq> filePath dir (l ! i) \<longrightarrow> files v' q = files v q)))
   \<and> map ID (conf_List (fst (applyUpdate e s w))) = map ID (conf_List s)
   \<and> map Name (conf_List (fst (applyUpdate e s w))) = map Name (conf_List s)
   \<and> map URL (conf_List (fst (applyUpdate e s w))) = map URL (conf_List s)
   \<and> map Enabled (conf_List (fst (applyUpdate e s w))) = map Enabled (conf_List s)"
proof -
  have a: "spec_apply_entry e dir (l, v) uf = (l, os_Remove (filePath dir uf) v)
        \<and> files (os_Remove (filePath dir uf) v) (filePath dir uf) = None
        \<and> (\<forall>q. q \<noteq> filePath dir uf \<longrightarrow> files (os_Remove (filePath dir uf) v) q = files v q)"
    if "URL uf \<notin> URL ` set l"
    using that find_URL_None [of "URL uf" l]
    by (simp add: spec_apply_entry_def os_Remove_frame)
  have b: "Path uf = [] \<or> Path uf = filePath dir uf"
    if "downloadFilter dir e f v0 = (None, uf, v1)"
    using downloadFilter_staged_path [OF that] .
  have c: "l' = map (\<lambda>f. if URL f = URL uf then f\<lparr>LastUpdated := LastUpdated uf\<rparr> else f) l
        \<and> map RuleCount l' = map RuleCount l
        \<and> (\<forall>q. files v' q =
                 (if q \<in> filePath dir ` {f \<in> set l. URL f = URL uf} \<and> Chtimes_ok e q
                  then map_option (\<lambda>fl. fl\<lparr>mtime := LastUpdated uf\<rparr>) (files v q)
                  else files v q))
        \<and> (\<forall>q. map_option content (files v' q) = map_option content (files v q))"
    if "URL uf \<in> URL ` set l" "Path uf = []" "spec_apply_entry e dir (l, v) uf = (l', v')"
  proof -
    from that(1) obtain i where "find_URL (URL uf) l = Some i"
      using find_URL_None [of "URL uf" l] by auto
    with that(2,3)
    have l': "l' = map (\<lambda>f. if URL f = URL uf then f\<lparr>LastUpdated := LastUpdated uf\<rparr> else f) l"
      and v': "v' = foldl (spec_touch e dir (LastUpdated uf)) v (filter (\<lambda>f. URL f = URL uf) l)"
      by (simp_all add: spec_apply_entry_def)
    have st: "set (filter (\<lambda>f. URL f = URL uf) l) = {f \<in> set l. URL f = URL uf}"
      by auto
    have fl: "files v' q =
                 (if q \<in> filePath dir ` {f \<in> set l. URL f = URL uf} \<and> Chtimes_ok e q
                  then map_option (\<lambda>fl. fl\<lparr>mtime := LastUpdated uf\<rparr>) (files v q)
                  else files v q)" for q
      unfolding v' files_foldl_spec_touch st ..
    have "map_option content (files v' q) = map_option content (files v q)" for q
      unfolding fl by (cases "files v q") auto
    moreover have "map RuleCount l' = map RuleCount l"
      unfolding l' by (induction l) auto
    ultimately show ?thesis
      using l' fl by blast
  qed
  have d: "l' = l[i := (l ! i)\<lparr>LastUpdated := LastUpdated uf, RuleCount := RuleCount uf\<rparr>]
        \<and> (\<forall>fl. files v (Path uf) = Some fl \<and> Rename_ok e (Path uf) (filePath dir (l ! i)) \<longrightarrow>
              files v' (filePath dir (l ! i)) = Some fl
              \<and> (Path uf \<noteq> filePath dir (l ! i) \<longrightarrow> files v' (Path uf) = None)
              \<and> (\<forall>q. q \<noteq> Path uf \<and> q \<noteq> filePath dir (l ! i) \<longrightarrow> files v' q = files v q))"
    if "find_URL (URL uf) l = Some i" "Path uf \<noteq> []" "spec_apply_entry e dir (l, v) uf = (l', v')"
    using that by (auto simp: spec_apply_entry_def os_Rename_effect)
  from applyUpdate_fold [of e s w] applyUpdate_frame [of e s w] a b c d
  show ?thesis by blast
qed

theorem applyUpdate_entries_witness:
  "applyUpdate (ex_env TransportError) ((ex_stg ex_live)\<lparr>updated := ex_batch\<rparr>) ex_world3
     = (ex_stg [ex_old\<lparr>LastUpdated := 1000, RuleCount := 2\<rparr>,
               (ex_filter 8 ''b'' ex_url_b)\<lparr>LastUpdated := 1000\<rparr>],
        \<lparr>files = [''/filters/7.txt'' \<mapsto> \<lparr>content = ''||a^'' @ [NL] @ ''||b^'', mtime = 1000\<rparr>,
                  ''/filters/8.txt'' \<mapsto> \<lparr>content = ''||b^'', mtime = 1000\<rparr>],
         open_fds = 0,
         trace = [Notify 1 EventBeforeUpdate, Notify 2 EventBeforeUpdate, Lock, Unlock,
                  Notify 1 EventAfterUpdate, Notify 2 EventAfterUpdate]\<rparr>)
   \<and> find_URL (URL (ex_batch ! 0)) ex_live = Some 0 \<and> Path (ex_batch ! 0) \<noteq> []
   \<and> files ex_world3 (Path (ex_batch ! 0))
        = Some \<lparr>content = ''||a^'' @ [NL] @ ''||b^'', mtime = 1000\<rparr>
   \<and> Rename_ok (ex_env TransportError) (Path (ex_batch ! 0)) (filePath ''/filters'' (ex_live ! 0))
   \<and> files (snd (spec_apply_entry (ex_env TransportError) ''/filters'' (ex_live, ex_world3)
                   (ex_batch ! 0))) ''/filters/7.txt''
        = Some \<lparr>content = ''||a^'' @ [NL] @ ''||b^'', mtime = 1000\<rparr>
   \<and> URL (ex_batch ! 1) \<in> URL ` set ex_live \<and> Path (ex_batch ! 1) = []
   \<and> fst (spec_apply_entry (ex_env TransportError) ''/filters'' (ex_live, ex_world3) (ex_batch ! 1))
        = [ex_old, (ex_filter 8 ''b'' ex_url_b)\<lparr>LastUpdated := 1000\<rparr>]
   \<and> files (snd (spec_apply_entry (ex_env TransportError) ''/filters'' (ex_live, ex_world3)
                   (ex_batch ! 1))) ''/filters/8.txt''
        = Some \<lparr>content = ''||b^'', mtime = 1000\<rparr>
   \<and> URL (ex_batch ! 2) \<notin> URL ` set ex_live
   \<and> Path (ex_batch ! 2) = filePath ''/filters'' (ex_batch ! 2)
   \<and> fst (spec_apply_entry (ex_env TransportError) ''/filters'' (ex_live, ex_world3) (ex_batch ! 2))
        = ex_live
   \<and> files (snd (spec_apply_entry (ex_env TransportError) ''/filters'' (ex_live, ex_world3)
                   (ex_batch ! 2))) (Path (ex_batch ! 2)) = None
   \<and> applyUpdate (ex_env TransportError)
        ((ex_stg [ex_old, ex_old\<lparr>ID := 8\<rparr>])\<lparr>updated := [ex_staged\<lparr>Path := []\<rparr>]\<rparr>) ex_world3
     = (ex_stg [ex_old\<lparr>LastUpdated := 1000\<rparr>, ex_old\<lparr>ID := 8, LastUpdated := 1000\<rparr>],
        \<lparr>files = [''/filters/7.txt'' \<mapsto> \<lparr>content = ''old^'', mtime = 1000\<rparr>,
                  ''/filters/8.txt'' \<mapsto> \<lparr>content = ''||b^'', mtime = 1000\<rparr>,
                  ''/filters/9.txt'' \<mapsto> \<lparr>content = ''||a^'' @ [NL] @ ''||b^'', mtime = 1000\<rparr>,
                  ''/filters/11.txt'' \<mapsto> \<lparr>content = ''||c^'', mtime = 1000\<rparr>],
         open_fds = 0,
         trace = [Notify 1 EventBeforeUpdate, Notify 2 EventBeforeUpdate, Lock, Unlock,
                  Notify 1 EventAfterUpdate, Notify 2 EventAfterUpdate]\<rparr>)"
proof -
  have r: "applyUpdate (ex_env TransportError) ((ex_stg ex_live)\<lparr>updated := ex_batch\<rparr>) ex_world3
     = (ex_stg [ex_old\<lparr>LastUpdated := 1000, RuleCount := 2\<rparr>,
               (ex_filter 8 ''b'' ex_url_b)\<lparr>LastUpdated := 1000\<rparr>],
        \<lparr>files = [''/filters/7.txt'' \<mapsto> \<lparr>content = ''||a^'' @ [NL] @ ''||b^'', mtime = 1000\<rparr>,
                  ''/filters/8.txt'' \<mapsto> \<lparr>content = ''||b^'', mtime = 1000\<rparr>],
         open_fds = 0,
         trace = [Notify 1 EventBeforeUpdate, Notify 2 EventBeforeUpdate, Lock, Unlock,
                  Notify 1 EventAfterUpdate, Notify 2 EventAfterUpdate]\<rparr>)"
    by (simp add: ex_live_def ex_batch_def ex_world3_def ex_staged_def ex_old_def pass_defs
        eval_defs fun_upd_twist)
  have r2: "applyUpdate (ex_env TransportError)
        ((ex_stg [ex_old, ex_old\<lparr>ID := 8\<rparr>])\<lparr>updated := [ex_staged\<lparr>Path := []\<rparr>]\<rparr>) ex_world3
     = (ex_stg [ex_old\<lparr>LastUpdated := 1000\<rparr>, ex_old\<lparr>ID := 8, LastUpdated := 1000\<rparr>],
        \<lparr>files = [''/filters/7.txt'' \<mapsto> \<lparr>content = ''old^'', mtime = 1000\<rparr>,
                  ''/filters/8.txt'' \<mapsto> \<lparr>content = ''||b^'', mtime = 1000\<rparr>,
                  ''/filters/9.txt'' \<mapsto> \<lparr>content = ''||a^'' @ [NL] @ ''||b^'', mtime = 1000\<rparr>,
                  ''/filters/11.txt'' \<mapsto> \<lparr>content = ''||c^'', mtime = 1000\<rparr>],
         open_fds = 0,
         trace = [Notify 1 EventBeforeUpdate, Notify 2 EventBeforeUpdate, Lock, Unlock,
                  Notify 1 EventAfterUpdate, Notify 2 EventAfterUpdate]\<rparr>)"
    by (simp add: ex_world3_def ex_staged_def ex_old_def pass_defs eval_defs fun_upd_twist)
  have a: "find_URL (URL (ex_batch ! 0)) ex_live = Some 0" "Path (ex_batch ! 0) \<noteq> []"
    "URL (ex_batch ! 1) \<in> URL ` set ex_live" "Path (ex_batch ! 1) = []"
    "URL (ex_batch ! 2) \<notin> URL ` set ex_live"
    by (simp_all add: ex_live_def ex_batch_def ex_staged_def ex_old_def ex_filter_def ex_url_def
        ex_url_b_def Filter0_def)
  have b: "files ex_world3 (Path (ex_batch ! 0))
        = Some \<lparr>content = ''||a^'' @ [NL] @ ''||b^'', mtime = 1000\<rparr>"
    "Rename_ok (ex_env TransportError) (Path (ex_batch ! 0)) (filePath ''/filters'' (ex_live ! 0))"
    "filePath ''/filters'' (ex_live ! 0) = ''/filters/7.txt''"
    "filePath ''/filters'' (ex_live ! 1) = ''/filters/8.txt''"
    "Path (ex_batch ! 2) = filePath ''/filters'' (ex_batch ! 2)"
    by (simp_all add: ex_live_def ex_batch_def ex_world3_def ex_staged_def ex_old_def eval_defs)
  have c0: "files (snd (spec_apply_entry (ex_env TransportError) ''/filters'' (ex_live, ex_world3)
                   (ex_batch ! 0))) ''/filters/7.txt''
        = Some \<lparr>content = ''||a^'' @ [NL] @ ''||b^'', mtime = 1000\<rparr>"
    by (simp add: spec_apply_entry_def ex_live_def ex_batch_def ex_world3_def ex_staged_def
        ex_old_def ex_url_def ex_url_b_def eval_defs)
  have c1: "fst (spec_apply_entry (ex_env TransportError) ''/filters'' (ex_live, ex_world3)
                   (ex_batch ! 1))
        = [ex_old, (ex_filter 8 ''b'' ex_url_b)\<lparr>LastUpdated := 1000\<rparr>]"
    "files (snd (spec_apply_entry (ex_env TransportError) ''/filters'' (ex_live, ex_world3)
                   (ex_batch ! 1))) ''/filters/8.txt''
        = Some \<lparr>content = ''||b^'', mtime = 1000\<rparr>"
    by (simp_all add: spec_apply_entry_def spec_touch_def os_Chtimes_def ex_live_def ex_batch_def
        ex_world3_def ex_staged_def ex_old_def ex_url_def ex_url_b_def eval_defs)
  have c2: "fst (spec_apply_entry (ex_env TransportError) ''/filters'' (ex_live, ex_world3)
                   (ex_batch ! 2)) = ex_live"
    "files (snd (spec_apply_entry (ex_env TransportError) ''/filters'' (ex_live, ex_world3)
                   (ex_batch ! 2))) (Path (ex_batch ! 2)) = None"
    by (simp_all add: spec_apply_entry_def ex_live_def ex_batch_def ex_world3_def ex_staged_def
        ex_old_def ex_url_def ex_url_b_def eval_defs)
  from applyUpdate_entries [where e = "ex_env TransportError"
        and s = "(ex_stg ex_live)\<lparr>updated := ex_batch\<rparr>" and w = ex_world3
        and uf = "ex_batch ! 0" and l = ex_live and i = 0 and dir = "''/filters''"
        and v = ex_world3]
    applyUpdate_entries [where e = "ex_env TransportError" and uf = "ex_batch ! 1"
        and l = ex_live and dir = "''/filters''" and v = ex_world3]
    applyUpdate_entries [where e = "ex_env TransportError" and uf = "ex_batch ! 2"
        and l = ex_live and dir = "''/filters''" and v = ex_world3]
    r r2 a b c0 c1 c2
  show ?thesis
    by blast
qed

text \<open>
  C10. With an empty batch \<open>applyUpdate\<close> returns the state and the world as they are:
  no observer is called, the lock is not taken, no file is touched. The observers are
  called, before and after, exactly when the batch is not empty.
\<close>

theorem applyUpdate_empty_batch:
  "(updated s = [] \<longrightarrow> applyUpdate e s w = (s, w))
   \<and> trace (snd (applyUpdate e s w))
       = trace w @ (if updated s = [] then []
                    else map (\<lambda>u. Notify u EventBeforeUpdate) (Users s) @ [Lock, Unlock]
                         @ map (\<lambda>u. Notify u EventAfterUpdate) (Users s))"
proof (cases "updated s = []")
  case True
  then show ?thesis by (simp add: applyUpdate_def)
next
  case False
  obtain l w2 where
    r: "applyUpdate_loop e (FilterDir s) (updated s) (conf_List s)
          (lock (notifyUsers EventBeforeUpdate s w)) = (l, w2)"
    by (metis prod.collapse)
  from applyUpdate_loop_frame [OF r] False r show ?thesis
    by (simp add: applyUpdate_def Let_def lock_def unlock_def)
qed

theorem applyUpdate_empty_batch_witness:
  "updated (ex_stg [ex_old]) = []
   \<and> applyUpdate (ex_env TransportError) (ex_stg [ex_old]) ex_world = (ex_stg [ex_old], ex_world)
   \<and> trace (snd (applyUpdate (ex_env TransportError) ((ex_stg [ex_old])\<lparr>updated := [ex_staged]\<rparr>)
        ex_world2))
      = [Notify 1 EventBeforeUpdate, Notify 2 EventBeforeUpdate, Lock, Unlock,
         Notify 1 EventAfterUpdate, Notify 2 EventAfterUpdate]"
proof -
  have u: "updated (ex_stg [ex_old]) = []"
    by (simp add: ex_stg_def)
  from applyUpdate_empty_batch [of "ex_stg [ex_old]" "ex_env TransportError" ex_world]
    applyUpdate_empty_batch [of "(ex_stg [ex_old])\<lparr>updated := [ex_staged]\<rparr>"
      "ex_env TransportError" ex_world2] u
  show ?thesis
    by (simp add: ex_stg_def ex_world2_def)
qed

text \<open>
  C8 fails on the code when the update interval is zero (a pass started by
  \<open>Refresh\<close>): the descriptor whose fetch failed with status 500 is rescheduled to
  \<open>now\<close>, so it is due again at once; after three iterations the pass has fetched the
  first filter three times, has not tried the second one and has not returned. For a
  failure that is followed by a pick before the rescheduled time, the lemmas
  \<open>updateAll_failure\<close> and \<open>updateAll_something_due\<close> give what the claim says.
\<close>

theorem updateAll_zero_interval_repeats:
  "(case updateAll [ex_env (Response 500 [] []), ex_env (Response 500 [] []),
                    ex_env (Response 500 [] [])]
           ((ex_stg ex_due)\<lparr>UpdateIntervalHours := 0\<rparr>) ex_world of
      (returned, s, w) \<Rightarrow> (returned, map nextUpdate (conf_List s), trace w))
     = (False, [1000, zeroTime],
        [Lock, Unlock, HTTPGet \<lparr>req_url = ex_url, If_Modified_Since = None\<rparr>,
         Lock, Unlock, HTTPGet \<lparr>req_url = ex_url, If_Modified_Since = None\<rparr>,
         Lock, Unlock, HTTPGet \<lparr>req_url = ex_url, If_Modified_Since = None\<rparr>])"
  by (simp add: pass_defs eval_defs)

end
